theory Spec2Isabelle
  imports Main "HOL-Library.Word" "HOL-Library.Sublist"
begin

section \<open>Data model (bank.hpp)\<close>

text \<open>
  The C++ type \<^verbatim>\<open>int\<close> is a 32-bit two's complement integer: \<^typ>\<open>32 word\<close>, read
  as a signed number by \<^const>\<open>sint\<close>. Addition, subtraction and negation wrap around:
  the language leaves a signed operation that leaves the range undefined, and the
  wrap-around is what the compiled \<^verbatim>\<open>+=\<close> and \<^verbatim>\<open>-\<close> of this code do on two's complement
  hardware. A comparison \<^verbatim>\<open>a < 0\<close> of the source is \<open>sint a < 0\<close>.

  A \<^verbatim>\<open>user\<close> object lives at an address; all user objects ever constructed are
  kept in a memory, a list in which the address of an object is its position.
  Objects are never destroyed or moved (the class is neither copyable nor movable),
  so an address stays valid once it is below the length of the memory. A pointer
  \<^verbatim>\<open>const user *\<close> is an address or \<^verbatim>\<open>nullptr\<close> (\<open>None\<close>).

  The mutex of a user is taken and released inside each member function; one call is
  one atomic step of the model. The condition variable is represented by the number
  of \<^verbatim>\<open>notify_all\<close> calls issued on it. The index of a cursor, a \<^verbatim>\<open>std::size_t\<close> that
  the code only ever increments by one from the size of a log, is a natural number.

  The data members of the source end in an underscore (\<^verbatim>\<open>balance_\<close>), which is not a
  name of a constant here; the fields carry the source's names without it.
\<close>

type_synonym int32 = "32 word"

type_synonym user_ptr = nat

record transaction =
  counterparty :: "user_ptr option"
  balance_delta_xts :: int32
  comment :: string

record user =
  name :: string
  balance :: int32
  transactions :: "transaction list"
  cv_new_transaction :: nat

type_synonym memory = "user list"

record ledger =
  users :: "string \<rightharpoonup> user_ptr"

record user_transactions_iterator =
  user :: user_ptr
  index :: nat

subsection \<open>Errors\<close>

text \<open>\<^verbatim>\<open>std::to_string(int)\<close>: the decimal digits, with a minus sign for a negative number.\<close>

fun digits :: "nat \<Rightarrow> string" where
  "digits n = (if n < 10 then [''0123456789'' ! n]
               else digits (n div 10) @ [''0123456789'' ! (n mod 10)])"

declare digits.simps [simp del]

definition to_string :: "int \<Rightarrow> string" where
  "to_string i = (if i < 0 then CHR ''-'' # digits (nat (- i)) else digits (nat i))"

text \<open>
  The two classes derived from \<^verbatim>\<open>transfer_error\<close>. \<open>not_enough_funds_error\<close> is
  constructed from the current balance and the requested amount; \<open>what\<close> is the message
  of the exception.
\<close>

datatype transfer_error =
  not_enough_funds_error int32 int32
| invalid_transfer_error string

definition create_message :: "int32 \<Rightarrow> int32 \<Rightarrow> string" where
  "create_message current requested =
     ''Not enough funds: '' @ to_string (sint current) @
     '' XTS available, '' @ to_string (sint requested) @
     '' XTS requested''"

fun what :: "transfer_error \<Rightarrow> string" where
  "what (not_enough_funds_error current_balance requested_XTS) =
     create_message current_balance requested_XTS"
| "what (invalid_transfer_error msg) = msg"

section \<open>The account (bank.cpp)\<close>

text \<open>\<^verbatim>\<open>user::add_transaction\<close>: append to the log, then \<^verbatim>\<open>notify_all\<close>.\<close>

definition add_transaction :: "user_ptr option \<Rightarrow> int32 \<Rightarrow> string \<Rightarrow> user \<Rightarrow> user" where
  "add_transaction to delta cmt u =
     u\<lparr>transactions :=
          (transactions u @ [\<lparr>counterparty = to, balance_delta_xts = delta, comment = cmt\<rparr>]),
       cv_new_transaction := Suc (cv_new_transaction u)\<rparr>"

text \<open>The constructor \<^verbatim>\<open>user::user(std::string name)\<close>.\<close>

definition new_user :: "string \<Rightarrow> user" where
  "new_user nm =
     add_transaction None 100 (''Initial deposit for '' @ nm)
       \<lparr>name = nm, balance = 100, transactions = [], cv_new_transaction = 0\<rparr>"

definition balance_xts :: "user_ptr \<Rightarrow> memory \<Rightarrow> int32" where
  "balance_xts this m = balance (m ! this)"

text \<open>
  \<^verbatim>\<open>user::transfer\<close>. The result is the exception thrown (\<open>Inl\<close>) or the normal
  return (\<open>Inr ()\<close>), together with the memory the call leaves behind; the four
  assignments of the source are kept in their order.
\<close>

definition transfer ::
  "user_ptr \<Rightarrow> user_ptr \<Rightarrow> int32 \<Rightarrow> string \<Rightarrow> memory \<Rightarrow> (transfer_error + unit) \<times> memory" where
  "transfer this cpty amount_xts cmt m =
     (if this = cpty then (Inl (invalid_transfer_error ''Self-transfer''), m)
      else if sint amount_xts < 0
        then (Inl (invalid_transfer_error ''Negative amount, you're lose:(''), m)
      else
        let new_user_amount = balance (m ! this) - amount_xts in
        if sint new_user_amount < 0
          then (Inl (not_enough_funds_error (balance (m ! this)) amount_xts), m)
        else
          let m1 = m[this := (m ! this)\<lparr>balance := balance (m ! this) - amount_xts\<rparr>];
              m2 = m1[this := add_transaction (Some cpty) (- amount_xts) cmt (m1 ! this)];
              m3 = m2[cpty := (m2 ! cpty)\<lparr>balance := balance (m2 ! cpty) + amount_xts\<rparr>];
              m4 = m3[cpty := add_transaction (Some this) amount_xts cmt (m3 ! cpty)]
          in (Inr (), m4))"

text \<open>
  \<^verbatim>\<open>user::snapshot_transactions\<close> hands the log and the balance to the visitor \<open>f\<close>
  and returns a cursor at the end of the log; \<^verbatim>\<open>user::monitor\<close> returns the cursor only.
  The visitor's result stands for whatever the visitor does with its arguments.
\<close>

definition snapshot_transactions ::
  "(transaction list \<Rightarrow> int32 \<Rightarrow> 'r) \<Rightarrow> user_ptr \<Rightarrow> memory \<Rightarrow> 'r \<times> user_transactions_iterator" where
  "snapshot_transactions f this m =
     (f (transactions (m ! this)) (balance (m ! this)),
      \<lparr>user = this, index = length (transactions (m ! this))\<rparr>)"

definition monitor :: "user_ptr \<Rightarrow> memory \<Rightarrow> user_transactions_iterator" where
  "monitor this m = \<lparr>user = this, index = length (transactions (m ! this))\<rparr>"

text \<open>
  \<^verbatim>\<open>user_transactions_iterator::wait_next_transaction\<close> waits until the log is longer
  than the cursor's index. \<open>None\<close> is the call that is still waiting in the given
  memory; otherwise the entry at the index is returned and the index incremented.
\<close>

definition wait_next_transaction ::
  "user_transactions_iterator \<Rightarrow> memory \<Rightarrow> (transaction \<times> user_transactions_iterator) option" where
  "wait_next_transaction it m =
     (if index it < length (transactions (m ! user it))
      then Some (transactions (m ! user it) ! index it, it\<lparr>index := Suc (index it)\<rparr>)
      else None)"

section \<open>The ledger (bank.cpp)\<close>

text \<open>
  \<^verbatim>\<open>ledger::get_or_create_user\<close>: the user stored under the name, or a new user
  constructed in place under it. The new object gets the next free address.
\<close>

definition get_or_create_user ::
  "string \<Rightarrow> ledger \<Rightarrow> memory \<Rightarrow> user_ptr \<times> ledger \<times> memory" where
  "get_or_create_user nm l m =
     (case users l nm of
        Some p \<Rightarrow> (p, l, m)
      | None \<Rightarrow> (length m, l\<lparr>users := (users l)(nm \<mapsto> length m)\<rparr>, m @ [new_user nm]))"

section \<open>Sequences of calls\<close>

text \<open>
  The calls of the core that change the state: a lookup in the ledger and a transfer
  between two users. A reference of the source always denotes a live object, so a
  transfer is a call of the program only when both addresses are in the memory; any
  other request leaves the state alone. A transfer that throws is a call like any
  other: it returns the memory unchanged.
\<close>

datatype request =
  Get_or_create string
| Transfer user_ptr user_ptr int32 string

fun perform :: "request \<Rightarrow> ledger \<times> memory \<Rightarrow> ledger \<times> memory" where
  "perform (Get_or_create nm) (l, m) = snd (get_or_create_user nm l m)"
| "perform (Transfer this cpty amount_xts cmt) (l, m) =
     (if this < length m \<and> cpty < length m
      then (l, snd (transfer this cpty amount_xts cmt m))
      else (l, m))"

fun run :: "request list \<Rightarrow> ledger \<times> memory \<Rightarrow> ledger \<times> memory" where
  "run [] s = s"
| "run (r # rs) s = run rs (perform r s)"

text \<open>A ledger as it is constructed (\<^verbatim>\<open>bank::ledger l;\<close>): no user yet.\<close>

definition empty_bank :: "ledger \<times> memory" where
  "empty_bank = (\<lparr>users = Map.empty\<rparr>, [])"

text \<open>
  The loop of the test \<^verbatim>\<open>snapshot_transaction is atomic\<close> (bank\_test.cpp), which adds
  up the deltas of a log in an \<^verbatim>\<open>int\<close>.
\<close>

definition replay :: "transaction list \<Rightarrow> int32" where
  "replay ts = foldl (\<lambda>real_balance_xts t. real_balance_xts + balance_delta_xts t) 0 ts"

text \<open>
  A cursor that is polled several times while other calls go on: before each
  \<^verbatim>\<open>wait_next_transaction\<close> the requests of one batch are performed. The result is
  \<open>None\<close> when one of the waits finds nothing to return after its batch.
\<close>

fun wait_next_transactions ::
  "user_transactions_iterator \<Rightarrow> request list list \<Rightarrow> ledger \<times> memory \<Rightarrow>
    (transaction list \<times> user_transactions_iterator \<times> ledger \<times> memory) option" where
  "wait_next_transactions it [] s = Some ([], it, s)"
| "wait_next_transactions it (rs # rss) s =
     (case wait_next_transaction it (snd (run rs s)) of
        None \<Rightarrow> None
      | Some (t, it') \<Rightarrow>
          (case wait_next_transactions it' rss (run rs s) of
             None \<Rightarrow> None
           | Some (ts, it'', s') \<Rightarrow> Some (t # ts, it'', s')))"

section \<open>The protocol adapter (bank\_server.cpp)\<close>

text \<open>
  \<^verbatim>\<open>std::size_t\<close> is a 64-bit unsigned integer. What the connection writes to the client
  is a string. A line of a transaction is the name of the counterparty (or \<^verbatim>\<open>-\<close>),
  the delta and the comment, separated by tabs.
\<close>

type_synonym size_t = "64 word"

definition transaction_line :: "memory \<Rightarrow> transaction \<Rightarrow> string" where
  "transaction_line m cur_transaction =
     (case counterparty cur_transaction of None \<Rightarrow> ''-'' | Some p \<Rightarrow> name (m ! p)) @
     [CHR 0x09] @ to_string (sint (balance_delta_xts cur_transaction)) @
     [CHR 0x09] @ comment cur_transaction @ [CHR 0x0A]"

text \<open>\<^verbatim>\<open>static_cast<int>(transactions.size())\<close>: the low 32 bits of the size.\<close>

definition size_int :: "'a list \<Rightarrow> int32" where
  "size_int xs = ucast (of_nat (length xs) :: size_t)"

text \<open>
  The loop \<^verbatim>\<open>for (int i = start; i < static_cast<int>(transactions.size()); i++)\<close> of
  \<^verbatim>\<open>get_transactions\<close>; the \<^verbatim>\<open>int\<close> index is converted to \<^verbatim>\<open>size_t\<close> by
  \<^verbatim>\<open>transactions[i]\<close>.
\<close>

function print_transactions :: "memory \<Rightarrow> transaction list \<Rightarrow> int32 \<Rightarrow> string" where
  "print_transactions m ts i =
     (if sint i < sint (size_int ts)
      then transaction_line m (ts ! unat (scast i :: size_t)) @ print_transactions m ts (i + 1)
      else [])"
  by pat_completeness auto
termination
proof (relation "measure (\<lambda>(m, ts, i). nat (sint (size_int ts) - sint i))")
  show "wf (measure (\<lambda>(m, ts, i). nat (sint (size_int ts) - sint i)))"
    by simp
next
  fix m :: memory and ts :: "transaction list" and i :: int32
  assume lt: "sint i < sint (size_int ts)"
  have "sint (i + 1) = sint i + 1"
    using lt sint_lt [of "size_int ts"] sint_ge [of i]
    by (simp add: sint_word_add signed_take_bit_int_eq_self)
  then show "((m, ts, i + 1), (m, ts, i)) \<in> measure (\<lambda>(m, ts, i). nat (sint (size_int ts) - sint i))"
    using lt by simp
qed

declare print_transactions.simps [simp del]

text \<open>
  \<^verbatim>\<open>client_connection::get_transactions\<close>: inside the visitor of
  \<^verbatim>\<open>snapshot_transactions\<close>, the header, the entries from
  \<^verbatim>\<open>std::max(static_cast<int>(transactions.size() - n), 0)\<close> on, and the balance. The
  subtraction is one of \<^verbatim>\<open>size_t\<close>; the cast keeps its low 32 bits. The cursor that
  \<^verbatim>\<open>snapshot_transactions\<close> returns is dropped.
\<close>

definition get_transactions :: "size_t \<Rightarrow> user_ptr \<Rightarrow> memory \<Rightarrow> string" where
  "get_transactions n this m =
     fst (snapshot_transactions
       (\<lambda>ts bal.
          let start = (let d = (ucast ((of_nat (length ts) :: size_t) - n) :: int32)
                       in if sint d < 0 then 0 else d)
          in ''CPTY'' @ [CHR 0x09] @ ''BAL'' @ [CHR 0x09] @ ''COMM'' @ [CHR 0x0A] @
             print_transactions m ts start @
             ''===== BALANCE: '' @ to_string (sint bal) @ '' XTS ====='' @ [CHR 0x0A])
       this m)"

text \<open>
  \<^verbatim>\<open>client_connection::monitor\<close> takes the lock of the user three times: in
  \<^verbatim>\<open>get_transactions\<close>, in \<^verbatim>\<open>user_->monitor()\<close> and in each
  \<^verbatim>\<open>wait_next_transaction\<close> of its endless loop. Each is one atomic step of the session,
  and the place of the session between two steps is its program counter. A step at
  \<open>At_wait\<close> whose wait has nothing to return leaves the session where it is.
\<close>

datatype monitor_pc =
  At_get_transactions
| At_monitor
| At_wait user_transactions_iterator

fun monitor_step :: "size_t \<Rightarrow> user_ptr \<Rightarrow> monitor_pc \<Rightarrow> memory \<Rightarrow> monitor_pc \<times> string" where
  "monitor_step n this At_get_transactions m = (At_monitor, get_transactions n this m)"
| "monitor_step n this At_monitor m = (At_wait (monitor this m), [])"
| "monitor_step n this (At_wait it) m =
     (case wait_next_transaction it m of
        None \<Rightarrow> (At_wait it, [])
      | Some (cur_transaction, it') \<Rightarrow> (At_wait it', transaction_line m cur_transaction))"

text \<open>
  The session runs beside the other threads of the server. A schedule lists, in the
  order in which the locks are obtained, the steps of the session and the requests of
  the other threads; the result is what the session has written to its client when the
  schedule is used up.
\<close>

datatype event = Session | Other request

fun monitor_run ::
  "size_t \<Rightarrow> user_ptr \<Rightarrow> event list \<Rightarrow> monitor_pc \<Rightarrow> ledger \<times> memory \<Rightarrow> string" where
  "monitor_run n this [] pc s = []"
| "monitor_run n this (Other r # es) pc s = monitor_run n this es pc (perform r s)"
| "monitor_run n this (Session # es) pc s =
     (case monitor_step n this pc (snd s) of
        (pc', out) \<Rightarrow> out @ monitor_run n this es pc' s)"


section \<open>Invariants\<close>

text \<open>Every account's balance is what replaying its log gives.\<close>

definition books_balanced :: "memory \<Rightarrow> bool" where
  "books_balanced m \<longleftrightarrow> (\<forall>p < length m. balance (m ! p) = replay (transactions (m ! p)))"

text \<open>The ledger maps each name it holds to a user of that name, and every user is found under
  its name.\<close>

definition ledger_owns :: "ledger \<Rightarrow> memory \<Rightarrow> bool" where
  "ledger_owns l m \<longleftrightarrow>
     (\<forall>nm p. users l nm = Some p \<longrightarrow> p < length m \<and> name (m ! p) = nm) \<and>
     (\<forall>p < length m. users l (name (m ! p)) = Some p)"

text \<open>The money of the bank: every balance is a non-negative number and the balances add up
  to 100 for each user.\<close>

definition total_xts :: "memory \<Rightarrow> int" where
  "total_xts m = sum_list (map (\<lambda>u. sint (balance u)) m)"

definition funds_conserved :: "memory \<Rightarrow> bool" where
  "funds_conserved m \<longleftrightarrow>
     (\<forall>p < length m. 0 \<le> sint (balance (m ! p))) \<and> total_xts m = 100 * int (length m)"

text \<open>
  The deltas of a log added up as numbers, and the memory in which every balance, read as
  a number, is that sum.
\<close>

definition sum_of_deltas :: "transaction list \<Rightarrow> int" where
  "sum_of_deltas ts = sum_list (map (\<lambda>t. sint (balance_delta_xts t)) ts)"

definition numbers_balanced :: "memory \<Rightarrow> bool" where
  "numbers_balanced m \<longleftrightarrow>
     (\<forall>p < length m. sint (balance (m ! p)) = sum_of_deltas (transactions (m ! p)))"

text \<open>A run that opens the account of the empty name and then \<open>n\<close> further accounts, each
  of which sends its 100 XTS to the first one.\<close>

fun funnel :: "nat \<Rightarrow> request list" where
  "funnel 0 = [Get_or_create []]"
| "funnel (Suc n) =
     funnel n @ [Get_or_create (replicate (Suc n) CHR ''a''), Transfer (Suc n) 0 100 []]"

section \<open>Properties of a transfer\<close>

subsection \<open>Signed 32-bit arithmetic\<close>

lemma sint32_bounds: "- 2147483648 \<le> sint (x :: int32) \<and> sint x \<le> 2147483647"
  using sint_ge [of x] sint_lt [of x] by simp

lemma sint32_diff:
  "- 2147483648 \<le> sint (a :: int32) - sint b \<Longrightarrow> sint a - sint b \<le> 2147483647
   \<Longrightarrow> sint (a - b) = sint a - sint b"
  by (simp add: sint_word_diff signed_take_bit_int_eq_self)

lemma sint32_add:
  "- 2147483648 \<le> sint (a :: int32) + sint b \<Longrightarrow> sint a + sint b \<le> 2147483647
   \<Longrightarrow> sint (a + b) = sint a + sint b"
  by (simp add: sint_word_add signed_take_bit_int_eq_self)

lemma sint32_debit:
  assumes "0 \<le> sint (a :: int32)" and "0 \<le> sint (b :: int32)"
  shows "sint (b - a) = sint b - sint a"
  using assms sint32_bounds [of a] sint32_bounds [of b] by (intro sint32_diff) linarith+

lemma digits_small: "n < 10 \<Longrightarrow> digits n = [''0123456789'' ! n]"
  by (subst digits.simps) simp

lemma digits_large:
  "10 \<le> n \<Longrightarrow> digits n = digits (n div 10) @ [''0123456789'' ! (n mod 10)]"
  by (subst digits.simps) simp

lemma transfer_self: "transfer this this amount_xts cmt m =
    (Inl (invalid_transfer_error ''Self-transfer''), m)"
  by (simp add: transfer_def)

lemma transfer_negative:
  "this \<noteq> cpty \<Longrightarrow> sint amount_xts < 0 \<Longrightarrow> transfer this cpty amount_xts cmt m =
    (Inl (invalid_transfer_error ''Negative amount, you're lose:(''), m)"
  by (simp add: transfer_def)

lemma transfer_not_enough:
  "this \<noteq> cpty \<Longrightarrow> 0 \<le> sint amount_xts \<Longrightarrow> sint (balance (m ! this) - amount_xts) < 0 \<Longrightarrow>
   transfer this cpty amount_xts cmt m =
    (Inl (not_enough_funds_error (balance (m ! this)) amount_xts), m)"
  by (simp add: transfer_def)

lemma transfer_ok:
  assumes "this \<noteq> cpty" "this < length m" "cpty < length m"
    "0 \<le> sint amount_xts" "0 \<le> sint (balance (m ! this) - amount_xts)"
  shows "transfer this cpty amount_xts cmt m =
    (Inr (),
     m[this := (m ! this)\<lparr>balance := balance (m ! this) - amount_xts,
         transactions := transactions (m ! this) @
           [\<lparr>counterparty = Some cpty, balance_delta_xts = - amount_xts, comment = cmt\<rparr>],
         cv_new_transaction := Suc (cv_new_transaction (m ! this))\<rparr>,
       cpty := (m ! cpty)\<lparr>balance := balance (m ! cpty) + amount_xts,
         transactions := transactions (m ! cpty) @
           [\<lparr>counterparty = Some this, balance_delta_xts = amount_xts, comment = cmt\<rparr>],
         cv_new_transaction := Suc (cv_new_transaction (m ! cpty))\<rparr>])"
  using assms by (simp add: transfer_def Let_def add_transaction_def)

lemma transfer_cases:
  "transfer this cpty amount_xts cmt m =
     (if this = cpty then (Inl (invalid_transfer_error ''Self-transfer''), m)
      else if sint amount_xts < 0
        then (Inl (invalid_transfer_error ''Negative amount, you're lose:(''), m)
      else if sint (balance (m ! this) - amount_xts) < 0
        then (Inl (not_enough_funds_error (balance (m ! this)) amount_xts), m)
      else (Inr (), snd (transfer this cpty amount_xts cmt m)))"
  by (simp add: transfer_def Let_def)

subsection \<open>Successful transfers\<close>

text \<open>
  Claim C3, as the code has it. A transfer between two distinct accounts with a
  non-negative amount that the source's balance covers returns normally. The source's
  balance is decreased by the amount and the transaction (destination, - amount, comment)
  is appended to the source's log; the destination's balance is incremented by the
  amount with the \<^verbatim>\<open>+=\<close> of the 32-bit \<^verbatim>\<open>int\<close>, which is an increase by the amount
  as a number whenever the sum does not exceed 2147483647, and the transaction (source,
  + amount, comment) is appended to the destination's log. Apart from the notification
  on each condition variable, no other field of the two accounts and no other account
  changes.
\<close>

theorem transfer_moves_amount:
  assumes "this < length m" and "cpty < length m" and "this \<noteq> cpty"
    and "0 \<le> sint amount_xts" and "sint amount_xts \<le> sint (balance (m ! this))"
  shows "fst (transfer this cpty amount_xts cmt m) = Inr () \<and>
    length (snd (transfer this cpty amount_xts cmt m)) = length m \<and>
    snd (transfer this cpty amount_xts cmt m) ! this =
      (m ! this)\<lparr>balance := balance (m ! this) - amount_xts,
        transactions := transactions (m ! this) @
          [\<lparr>counterparty = Some cpty, balance_delta_xts = - amount_xts, comment = cmt\<rparr>],
        cv_new_transaction := Suc (cv_new_transaction (m ! this))\<rparr> \<and>
    snd (transfer this cpty amount_xts cmt m) ! cpty =
      (m ! cpty)\<lparr>balance := balance (m ! cpty) + amount_xts,
        transactions := transactions (m ! cpty) @
          [\<lparr>counterparty = Some this, balance_delta_xts = amount_xts, comment = cmt\<rparr>],
        cv_new_transaction := Suc (cv_new_transaction (m ! cpty))\<rparr> \<and>
    (\<forall>q. q \<noteq> this \<and> q \<noteq> cpty \<longrightarrow> snd (transfer this cpty amount_xts cmt m) ! q = m ! q) \<and>
    sint (balance (snd (transfer this cpty amount_xts cmt m) ! this)) =
      sint (balance (m ! this)) - sint amount_xts \<and>
    sint (- amount_xts) = - sint amount_xts \<and>
    (sint (balance (m ! cpty)) + sint amount_xts \<le> 2147483647 \<longrightarrow>
      sint (balance (snd (transfer this cpty amount_xts cmt m) ! cpty)) =
        sint (balance (m ! cpty)) + sint amount_xts)"
proof -
  have bal: "0 \<le> sint (balance (m ! this))"
    using assms(4,5) by linarith
  have diff: "sint (balance (m ! this) - amount_xts) = sint (balance (m ! this)) - sint amount_xts"
    using assms(4) bal by (rule sint32_debit)
  then have ok: "0 \<le> sint (balance (m ! this) - amount_xts)"
    using assms(5) by simp
  note eq = transfer_ok [OF assms(3) assms(1) assms(2) assms(4) ok, of cmt]
  have neg: "sint (- amount_xts) = - sint amount_xts"
    using sint32_debit [OF assms(4), of 0] by simp
  have credit: "sint (balance (m ! cpty) + amount_xts) = sint (balance (m ! cpty)) + sint amount_xts"
    if "sint (balance (m ! cpty)) + sint amount_xts \<le> 2147483647"
    using that assms(4) sint32_bounds [of "balance (m ! cpty)"] by (intro sint32_add) linarith+
  show ?thesis
    unfolding eq using assms(1,2,3) diff neg credit by simp
qed

theorem transfer_moves_amount_witness:
  "(0::nat) < length [new_user ''Alice'', new_user ''Bob''] \<and>
   (1::nat) < length [new_user ''Alice'', new_user ''Bob''] \<and> (0::nat) \<noteq> 1 \<and>
   0 \<le> sint (40 :: int32) \<and>
   sint (40 :: int32) \<le> sint (balance ([new_user ''Alice'', new_user ''Bob''] ! 0)) \<and>
   fst (transfer 0 1 40 ''Test transfer'' [new_user ''Alice'', new_user ''Bob'']) = Inr () \<and>
   sint (balance (snd (transfer 0 1 40 ''Test transfer'' [new_user ''Alice'', new_user ''Bob'']) ! 0)) = 60 \<and>
   sint (balance (snd (transfer 0 1 40 ''Test transfer'' [new_user ''Alice'', new_user ''Bob'']) ! 1)) = 140"
proof -
  have h1: "(0::nat) < length [new_user ''Alice'', new_user ''Bob'']" by simp
  have h2: "(1::nat) < length [new_user ''Alice'', new_user ''Bob'']" by simp
  have h3: "(0::nat) \<noteq> 1" by simp
  have h4: "0 \<le> sint (40 :: int32)" by simp
  have h5: "sint (40 :: int32) \<le> sint (balance ([new_user ''Alice'', new_user ''Bob''] ! 0))"
    by (simp add: new_user_def add_transaction_def)
  show ?thesis
    using transfer_moves_amount [OF h1 h2 h3 h4 h5, of "''Test transfer''"] h5
    by (simp add: new_user_def add_transaction_def)
qed

subsection \<open>Failed transfers\<close>

text \<open>
  Claim C4, as the code has it. A transfer throws \<open>invalid_transfer_error\<close> exactly when
  the source and the destination are the same account or the amount is negative.
  Otherwise it throws \<open>not_enough_funds_error\<close> exactly when the \<^verbatim>\<open>int\<close> difference of
  the balance of the source and the amount is below zero, which for a balance that is
  not negative is exactly when the balance minus the amount is below zero as a number;
  the exception is built from the current balance and the requested amount, and its
  message carries both. A transfer that throws leaves the whole memory, hence both
  balances and both logs, as it was.
\<close>

theorem transfer_failures:
  assumes "this < length m" and "cpty < length m"
  shows "((\<exists>msg. fst (transfer this cpty amount_xts cmt m) = Inl (invalid_transfer_error msg))
            \<longleftrightarrow> this = cpty \<or> sint amount_xts < 0) \<and>
    (this \<noteq> cpty \<and> 0 \<le> sint amount_xts \<longrightarrow>
       ((\<exists>cur req. fst (transfer this cpty amount_xts cmt m) = Inl (not_enough_funds_error cur req))
            \<longleftrightarrow> sint (balance (m ! this) - amount_xts) < 0) \<and>
       (0 \<le> sint (balance (m ! this)) \<longrightarrow>
          (sint (balance (m ! this) - amount_xts) < 0
             \<longleftrightarrow> sint (balance (m ! this)) - sint amount_xts < 0))) \<and>
    (\<forall>cur req. fst (transfer this cpty amount_xts cmt m) = Inl (not_enough_funds_error cur req) \<longrightarrow>
       cur = balance (m ! this) \<and> req = amount_xts \<and>
       what (not_enough_funds_error cur req) =
         ''Not enough funds: '' @ to_string (sint (balance (m ! this))) @
         '' XTS available, '' @ to_string (sint amount_xts) @ '' XTS requested'') \<and>
    (\<forall>e. fst (transfer this cpty amount_xts cmt m) = Inl e \<longrightarrow>
       snd (transfer this cpty amount_xts cmt m) = m)"
proof -
  have int_reading: "sint (balance (m ! this) - amount_xts) < 0
      \<longleftrightarrow> sint (balance (m ! this)) - sint amount_xts < 0"
    if "0 \<le> sint amount_xts" "0 \<le> sint (balance (m ! this))"
    using sint32_debit [OF that] by simp
  show ?thesis
    using int_reading
    by (subst (1 2 3 4 5) transfer_cases) (auto simp: create_message_def)
qed

theorem transfer_failures_witness:
  "(0::nat) < length [new_user ''Alice'', new_user ''Bob''] \<and>
   (1::nat) < length [new_user ''Alice'', new_user ''Bob''] \<and>
   transfer 0 1 101 ''Test transfer'' [new_user ''Alice'', new_user ''Bob''] =
     (Inl (not_enough_funds_error 100 101), [new_user ''Alice'', new_user ''Bob'']) \<and>
   what (not_enough_funds_error 100 101) =
     ''Not enough funds: 100 XTS available, 101 XTS requested'' \<and>
   (\<exists>msg. fst (transfer 0 0 5 ''x'' [new_user ''Alice'', new_user ''Bob'']) = Inl (invalid_transfer_error msg)) \<and>
   (\<exists>msg. fst (transfer 0 1 (- 5) ''x'' [new_user ''Alice'', new_user ''Bob'']) = Inl (invalid_transfer_error msg))"
proof -
  let ?m = "[new_user ''Alice'', new_user ''Bob'']"
  have h1: "(0::nat) < length ?m" by simp
  have h2: "(1::nat) < length ?m" by simp
  have b: "balance (?m ! 0) = 100"
    by (simp add: new_user_def add_transaction_def)
  have neg: "sint (balance (?m ! 0) - 101) < 0"
    unfolding b by simp
  from transfer_failures [OF h1 h2, of 101 "''Test transfer''"] neg
  have "\<exists>cur req. fst (transfer 0 1 101 ''Test transfer'' ?m) = Inl (not_enough_funds_error cur req)"
    by simp
  then obtain cur req where
    e: "fst (transfer 0 1 101 ''Test transfer'' ?m) = Inl (not_enough_funds_error cur req)"
    by blast
  with transfer_failures [OF h1 h2, of 101 "''Test transfer''"]
  have "cur = balance (?m ! 0)" "req = 101" "snd (transfer 0 1 101 ''Test transfer'' ?m) = ?m"
    by blast+
  with e b have t: "transfer 0 1 101 ''Test transfer'' ?m = (Inl (not_enough_funds_error 100 101), ?m)"
    by (simp add: prod_eq_iff)
  have w: "what (not_enough_funds_error 100 101) =
     ''Not enough funds: 100 XTS available, 101 XTS requested''"
    by (simp add: create_message_def to_string_def digits_small digits_large)
  have i1: "\<exists>msg. fst (transfer 0 0 5 ''x'' ?m) = Inl (invalid_transfer_error msg)"
    using transfer_failures [OF h1 h1, of 5 "''x''"] by simp
  have i2: "\<exists>msg. fst (transfer 0 1 (- 5) ''x'' ?m) = Inl (invalid_transfer_error msg)"
    using transfer_failures [OF h1 h2, of "- 5" "''x''"] by simp
  show ?thesis using h1 h2 t w i1 i2 by blast
qed

subsection \<open>Transfers of nothing\<close>

text \<open>
  Claim C10, as the code has it. A transfer of amount 0 between two distinct accounts,
  from an account whose balance is not negative, returns normally. Both balances stay
  as they are; one transaction with delta 0 and the given comment is appended to each
  log, \<^verbatim>\<open>notify_all\<close> is issued on each condition variable, and a cursor that was
  waiting at the end of either log now returns the new entry.
\<close>

theorem transfer_zero:
  assumes "this < length m" and "cpty < length m" and "this \<noteq> cpty"
    and "0 \<le> sint (balance (m ! this))"
  shows "fst (transfer this cpty 0 cmt m) = Inr () \<and>
    length (snd (transfer this cpty 0 cmt m)) = length m \<and>
    snd (transfer this cpty 0 cmt m) ! this =
      (m ! this)\<lparr>transactions := transactions (m ! this) @
          [\<lparr>counterparty = Some cpty, balance_delta_xts = 0, comment = cmt\<rparr>],
        cv_new_transaction := Suc (cv_new_transaction (m ! this))\<rparr> \<and>
    snd (transfer this cpty 0 cmt m) ! cpty =
      (m ! cpty)\<lparr>transactions := transactions (m ! cpty) @
          [\<lparr>counterparty = Some this, balance_delta_xts = 0, comment = cmt\<rparr>],
        cv_new_transaction := Suc (cv_new_transaction (m ! cpty))\<rparr> \<and>
    balance (snd (transfer this cpty 0 cmt m) ! this) = balance (m ! this) \<and>
    balance (snd (transfer this cpty 0 cmt m) ! cpty) = balance (m ! cpty) \<and>
    wait_next_transaction (monitor this m) m = None \<and>
    wait_next_transaction (monitor this m) (snd (transfer this cpty 0 cmt m)) =
      Some (\<lparr>counterparty = Some cpty, balance_delta_xts = 0, comment = cmt\<rparr>,
            \<lparr>user = this, index = Suc (length (transactions (m ! this)))\<rparr>) \<and>
    wait_next_transaction (monitor cpty m) m = None \<and>
    wait_next_transaction (monitor cpty m) (snd (transfer this cpty 0 cmt m)) =
      Some (\<lparr>counterparty = Some this, balance_delta_xts = 0, comment = cmt\<rparr>,
            \<lparr>user = cpty, index = Suc (length (transactions (m ! cpty)))\<rparr>)"
proof -
  have ok: "0 \<le> sint (balance (m ! this) - 0)" and z: "0 \<le> sint (0 :: int32)"
    using assms(4) by simp_all
  note eq = transfer_ok [OF assms(3) assms(1) assms(2) z ok, of cmt]
  show ?thesis
    unfolding eq using assms(1,2,3)
    by (simp add: wait_next_transaction_def monitor_def)
qed

theorem transfer_zero_witness:
  "(0::nat) < length [new_user ''Alice'', new_user ''Bob''] \<and>
   (1::nat) < length [new_user ''Alice'', new_user ''Bob''] \<and> (0::nat) \<noteq> 1 \<and>
   0 \<le> sint (balance ([new_user ''Alice'', new_user ''Bob''] ! 0)) \<and>
   fst (transfer 0 1 0 ''nothing'' [new_user ''Alice'', new_user ''Bob'']) = Inr () \<and>
   balance (snd (transfer 0 1 0 ''nothing'' [new_user ''Alice'', new_user ''Bob'']) ! 0) = 100 \<and>
   balance (snd (transfer 0 1 0 ''nothing'' [new_user ''Alice'', new_user ''Bob'']) ! 1) = 100 \<and>
   length (transactions (snd (transfer 0 1 0 ''nothing'' [new_user ''Alice'', new_user ''Bob'']) ! 0)) = 2 \<and>
   length (transactions (snd (transfer 0 1 0 ''nothing'' [new_user ''Alice'', new_user ''Bob'']) ! 1)) = 2"
proof -
  have h1: "(0::nat) < length [new_user ''Alice'', new_user ''Bob'']" by simp
  have h2: "(1::nat) < length [new_user ''Alice'', new_user ''Bob'']" by simp
  have h3: "(0::nat) \<noteq> 1" by simp
  have h4: "0 \<le> sint (balance ([new_user ''Alice'', new_user ''Bob''] ! 0))"
    by (simp add: new_user_def add_transaction_def)
  show ?thesis
    using transfer_zero [OF h1 h2 h3 h4, of "''nothing''"] h4
    by (simp add: new_user_def add_transaction_def)
qed

section \<open>Balances and logs along a run\<close>

lemma transfer_result:
  assumes "this < length m" and "cpty < length m"
  shows "snd (transfer this cpty amount_xts cmt m) = m \<or>
    (this \<noteq> cpty \<and> 0 \<le> sint amount_xts \<and> 0 \<le> sint (balance (m ! this) - amount_xts) \<and>
     snd (transfer this cpty amount_xts cmt m) =
       m[this := (m ! this)\<lparr>balance := balance (m ! this) - amount_xts,
           transactions := transactions (m ! this) @
             [\<lparr>counterparty = Some cpty, balance_delta_xts = - amount_xts, comment = cmt\<rparr>],
           cv_new_transaction := Suc (cv_new_transaction (m ! this))\<rparr>,
         cpty := (m ! cpty)\<lparr>balance := balance (m ! cpty) + amount_xts,
           transactions := transactions (m ! cpty) @
             [\<lparr>counterparty = Some this, balance_delta_xts = amount_xts, comment = cmt\<rparr>],
           cv_new_transaction := Suc (cv_new_transaction (m ! cpty))\<rparr>])"
proof (cases "this \<noteq> cpty \<and> 0 \<le> sint amount_xts \<and> 0 \<le> sint (balance (m ! this) - amount_xts)")
  case True
  then show ?thesis
    using transfer_ok [OF _ assms, of amount_xts cmt] by simp
next
  case False
  then have "snd (transfer this cpty amount_xts cmt m) = m"
    by (subst transfer_cases) auto
  then show ?thesis ..
qed

lemma length_transfer: "length (snd (transfer this cpty amount_xts cmt m)) = length m"
  by (simp add: transfer_def Let_def)

lemma replay_snoc: "replay (ts @ [t]) = replay ts + balance_delta_xts t"
  by (simp add: replay_def)

lemma replay_sum_list: "replay ts = sum_list (map balance_delta_xts ts)"
  by (induction ts rule: rev_induct) (simp_all add: replay_def)

lemma new_user_fields:
  "new_user nm = \<lparr>name = nm, balance = 100,
     transactions = [\<lparr>counterparty = None, balance_delta_xts = 100,
                       comment = ''Initial deposit for '' @ nm\<rparr>],
     cv_new_transaction = Suc 0\<rparr>"
  by (simp add: new_user_def add_transaction_def)

lemma books_balanced_transfer:
  assumes "books_balanced m" and "this < length m" and "cpty < length m"
  shows "books_balanced (snd (transfer this cpty amount_xts cmt m))"
proof -
  let ?m' = "snd (transfer this cpty amount_xts cmt m)"
  have "balance (?m' ! p) = replay (transactions (?m' ! p))" if "p < length m" for p
  proof -
    have old: "balance (m ! q) = replay (transactions (m ! q))" if "q < length m" for q
      using assms(1) that by (simp add: books_balanced_def)
    from transfer_result [OF assms(2,3), of amount_xts cmt] show ?thesis
    proof (elim disjE conjE)
      assume "?m' = m"
      then show ?thesis using old [OF that] by simp
    next
      assume ne: "this \<noteq> cpty" and eq: "?m' = m[this := (m ! this)\<lparr>balance := balance (m ! this) - amount_xts,
           transactions := transactions (m ! this) @
             [\<lparr>counterparty = Some cpty, balance_delta_xts = - amount_xts, comment = cmt\<rparr>],
           cv_new_transaction := Suc (cv_new_transaction (m ! this))\<rparr>,
         cpty := (m ! cpty)\<lparr>balance := balance (m ! cpty) + amount_xts,
           transactions := transactions (m ! cpty) @
             [\<lparr>counterparty = Some this, balance_delta_xts = amount_xts, comment = cmt\<rparr>],
           cv_new_transaction := Suc (cv_new_transaction (m ! cpty))\<rparr>]"
      show ?thesis
        unfolding eq using that assms(2,3) ne old [OF that] old [OF assms(2)] old [OF assms(3)]
        by (simp add: nth_list_update replay_snoc)
    qed
  qed
  then show ?thesis
    by (simp add: books_balanced_def length_transfer)
qed

lemma books_balanced_perform:
  assumes "books_balanced (snd s)"
  shows "books_balanced (snd (perform r s))"
proof (cases s)
  case (Pair l m)
  show ?thesis
  proof (cases r)
    case (Get_or_create nm)
    then show ?thesis
      using assms Pair
      by (auto simp: get_or_create_user_def books_balanced_def nth_append new_user_fields
            replay_def less_Suc_eq split: option.splits)
  next
    case (Transfer this cpty amount_xts cmt)
    then show ?thesis
      using assms Pair books_balanced_transfer by simp
  qed
qed

lemma books_balanced_run: "books_balanced (snd s) \<Longrightarrow> books_balanced (snd (run rs s))"
  by (induction rs arbitrary: s) (simp_all add: books_balanced_perform)

section \<open>The ledger's accounts\<close>

lemma name_transfer:
  assumes "this < length m" and "cpty < length m" and "p < length m"
  shows "name (snd (transfer this cpty amount_xts cmt m) ! p) = name (m ! p)"
  using transfer_result [OF assms(1,2), of amount_xts cmt] assms
  by (elim disjE conjE) (simp_all add: nth_list_update)

lemma run_append: "run (rs @ rs') s = run rs' (run rs s)"
  by (induction rs arbitrary: s) simp_all

lemma ledger_owns_perform:
  assumes "ledger_owns (fst s) (snd s)"
  shows "ledger_owns (fst (perform r s)) (snd (perform r s))"
proof (cases s)
  case (Pair l m)
  with assms have own: "ledger_owns l m" by simp
  show ?thesis
  proof (cases r)
    case (Get_or_create nm)
    show ?thesis
    proof (cases "users l nm")
      case None
      have fresh: "name (m ! p) \<noteq> nm" if "p < length m" for p
        using own that None by (auto simp: ledger_owns_def)
      show ?thesis
        using own None fresh unfolding Pair Get_or_create
        by (auto simp: ledger_owns_def get_or_create_user_def nth_append new_user_fields less_Suc_eq)
    next
      case (Some p)
      then show ?thesis
        using own Pair Get_or_create by (simp add: get_or_create_user_def)
    qed
  next
    case (Transfer this cpty amount_xts cmt)
    then show ?thesis
      using own Pair by (auto simp: ledger_owns_def length_transfer name_transfer)
  qed
qed

lemma ledger_owns_run:
  "ledger_owns (fst s) (snd s) \<Longrightarrow> ledger_owns (fst (run rs s)) (snd (run rs s))"
  by (induction rs arbitrary: s) (simp_all add: ledger_owns_perform)

lemma ledger_owns_empty: "ledger_owns (fst empty_bank) (snd empty_bank)"
  by (simp add: empty_bank_def ledger_owns_def)

lemma users_perform:
  assumes "users (fst s) nm = Some p"
  shows "users (fst (perform r s)) nm = Some p"
proof (cases s)
  case (Pair l m)
  then show ?thesis
    using assms by (cases r) (auto simp: get_or_create_user_def split: option.splits)
qed

lemma users_run: "users (fst s) nm = Some p \<Longrightarrow> users (fst (run rs s)) nm = Some p"
  by (induction rs arbitrary: s) (simp_all add: users_perform)

lemma get_or_create_user_registered:
  "users (fst (snd (get_or_create_user nm l m))) nm = Some (fst (get_or_create_user nm l m))"
  by (simp add: get_or_create_user_def split: option.splits)

text \<open>
  Claim C5. In every state that calls of the core reach from a new ledger: a lookup of a
  name that the ledger does not hold constructs a user at a new address with that name,
  balance 100 and a log of exactly the opening transaction (no counterparty, delta 100),
  and records the address under the name, leaving the existing users as they are; a
  lookup of a name that the ledger holds returns the recorded address and changes
  nothing. Whatever calls follow a lookup, a later lookup of the same name returns the
  same address, changes neither the ledger nor the memory, and the user at the address
  still carries the name. The names of the users are pairwise distinct: there is at most
  one user for a name, and the ledger maps each user's name to that user.
\<close>

theorem get_or_create_user_once:
  assumes "run rs empty_bank = (l, m)"
  shows "(users l nm = None \<longrightarrow>
      get_or_create_user nm l m =
        (length m, l\<lparr>users := (users l)(nm \<mapsto> length m)\<rparr>,
         m @ [\<lparr>name = nm, balance = 100,
               transactions = [\<lparr>counterparty = None, balance_delta_xts = 100,
                                 comment = ''Initial deposit for '' @ nm\<rparr>],
               cv_new_transaction = Suc 0\<rparr>])) \<and>
    (\<forall>p. users l nm = Some p \<longrightarrow> get_or_create_user nm l m = (p, l, m)) \<and>
    (\<forall>rs'. get_or_create_user nm (fst (run rs' (snd (get_or_create_user nm l m))))
                                 (snd (run rs' (snd (get_or_create_user nm l m)))) =
             (fst (get_or_create_user nm l m), run rs' (snd (get_or_create_user nm l m))) \<and>
           fst (get_or_create_user nm l m) < length (snd (run rs' (snd (get_or_create_user nm l m)))) \<and>
           name (snd (run rs' (snd (get_or_create_user nm l m))) ! fst (get_or_create_user nm l m)) = nm) \<and>
    distinct (map name m) \<and>
    (\<forall>p < length m. users l (name (m ! p)) = Some p) \<and>
    (\<forall>nm' p. users l nm' = Some p \<longrightarrow> p < length m \<and> name (m ! p) = nm')"
proof -
  have own: "ledger_owns l m"
    using ledger_owns_run [OF ledger_owns_empty, of rs] assms by simp
  have later: "get_or_create_user nm (fst (run rs' (snd (get_or_create_user nm l m))))
                                 (snd (run rs' (snd (get_or_create_user nm l m)))) =
             (fst (get_or_create_user nm l m), run rs' (snd (get_or_create_user nm l m))) \<and>
           fst (get_or_create_user nm l m) < length (snd (run rs' (snd (get_or_create_user nm l m)))) \<and>
           name (snd (run rs' (snd (get_or_create_user nm l m))) ! fst (get_or_create_user nm l m)) = nm"
    for rs'
  proof -
    let ?s1 = "snd (get_or_create_user nm l m)"
    let ?s2 = "run rs' ?s1"
    have "?s1 = perform (Get_or_create nm) (l, m)" by simp
    then have "ledger_owns (fst ?s1) (snd ?s1)"
      using ledger_owns_perform [of "(l, m)" "Get_or_create nm"] own by simp
    then have own2: "ledger_owns (fst ?s2) (snd ?s2)"
      by (rule ledger_owns_run)
    have reg: "users (fst ?s2) nm = Some (fst (get_or_create_user nm l m))"
      using get_or_create_user_registered by (rule users_run)
    from reg have "get_or_create_user nm (fst ?s2) (snd ?s2) = (fst (get_or_create_user nm l m), ?s2)"
      by (simp add: get_or_create_user_def)
    moreover from own2 reg have "fst (get_or_create_user nm l m) < length (snd ?s2) \<and>
        name (snd ?s2 ! fst (get_or_create_user nm l m)) = nm"
      unfolding ledger_owns_def by blast
    ultimately show ?thesis by blast
  qed
  have dist: "distinct (map name m)"
  proof -
    have "p = q" if "p < length m" "q < length m" "name (m ! p) = name (m ! q)" for p q
    proof -
      have "users l (name (m ! p)) = Some p" "users l (name (m ! q)) = Some q"
        using own that(1,2) by (simp_all add: ledger_owns_def)
      with that(3) show ?thesis by (metis option.inject)
    qed
    then show ?thesis
      by (auto simp: distinct_conv_nth)
  qed
  have first: "users l nm = None \<longrightarrow>
      get_or_create_user nm l m =
        (length m, l\<lparr>users := (users l)(nm \<mapsto> length m)\<rparr>,
         m @ [\<lparr>name = nm, balance = 100,
               transactions = [\<lparr>counterparty = None, balance_delta_xts = 100,
                                 comment = ''Initial deposit for '' @ nm\<rparr>],
               cv_new_transaction = Suc 0\<rparr>])"
    by (simp add: get_or_create_user_def new_user_fields)
  have again: "\<forall>p. users l nm = Some p \<longrightarrow> get_or_create_user nm l m = (p, l, m)"
    by (simp add: get_or_create_user_def)
  have own1: "\<forall>p < length m. users l (name (m ! p)) = Some p"
    and own2: "\<forall>nm' p. users l nm' = Some p \<longrightarrow> p < length m \<and> name (m ! p) = nm'"
    using own unfolding ledger_owns_def by blast+
  from first again later dist own1 own2 show ?thesis
    by (intro conjI allI) blast+
qed

theorem get_or_create_user_once_witness:
  "run [Get_or_create ''Alice'', Get_or_create ''Bob'', Get_or_create ''Alice''] empty_bank =
     (\<lparr>users = [''Alice'' \<mapsto> 0, ''Bob'' \<mapsto> 1]\<rparr>, [new_user ''Alice'', new_user ''Bob'']) \<and>
   get_or_create_user ''Alice'' \<lparr>users = [''Alice'' \<mapsto> 0, ''Bob'' \<mapsto> 1]\<rparr>
       [new_user ''Alice'', new_user ''Bob''] =
     (0, \<lparr>users = [''Alice'' \<mapsto> 0, ''Bob'' \<mapsto> 1]\<rparr>, [new_user ''Alice'', new_user ''Bob'']) \<and>
   fst (get_or_create_user ''Carol'' \<lparr>users = [''Alice'' \<mapsto> 0, ''Bob'' \<mapsto> 1]\<rparr>
       [new_user ''Alice'', new_user ''Bob'']) = 2 \<and>
   distinct (map name [new_user ''Alice'', new_user ''Bob''])"
proof -
  let ?l = "\<lparr>users = [''Alice'' \<mapsto> 0, ''Bob'' \<mapsto> 1]\<rparr>"
  let ?m = "[new_user ''Alice'', new_user ''Bob'']"
  have r: "run [Get_or_create ''Alice'', Get_or_create ''Bob'', Get_or_create ''Alice''] empty_bank =
      (?l, ?m)"
    by (simp add: empty_bank_def get_or_create_user_def)
  have a: "users ?l ''Alice'' = Some 0" and c: "users ?l ''Carol'' = None"
    by simp_all
  note t = get_or_create_user_once [OF r]
  have 1: "get_or_create_user ''Alice'' ?l ?m = (0, ?l, ?m)"
    using t [of "''Alice''"] a by blast
  have 2: "fst (get_or_create_user ''Carol'' ?l ?m) = 2"
    using t [of "''Carol''"] c by simp
  have 3: "distinct (map name ?m)"
    using t [of "''Alice''"] by blast
  show ?thesis
    using r 1 2 3 by (intro conjI)
qed

section \<open>Cursors\<close>

lemma log_grows_transfer:
  assumes "this < length m" and "cpty < length m" and "p < length m"
  shows "prefix (transactions (m ! p)) (transactions (snd (transfer this cpty amount_xts cmt m) ! p))"
  using transfer_result [OF assms(1,2), of amount_xts cmt] assms
  by (elim disjE conjE) (simp_all add: nth_list_update)

lemma log_grows_perform:
  assumes "p < length (snd s)"
  shows "p < length (snd (perform r s)) \<and>
    prefix (transactions (snd s ! p)) (transactions (snd (perform r s) ! p))"
proof (cases s)
  case (Pair l m)
  with assms have p: "p < length m" by simp
  show ?thesis
  proof (cases r)
    case (Get_or_create nm)
    then show ?thesis
      using p Pair by (simp add: get_or_create_user_def nth_append split: option.splits)
  next
    case (Transfer this cpty amount_xts cmt)
    then show ?thesis
      using p Pair by (simp add: length_transfer log_grows_transfer)
  qed
qed

lemma log_grows_run:
  "p < length (snd s) \<Longrightarrow>
   p < length (snd (run rs s)) \<and>
   prefix (transactions (snd s ! p)) (transactions (snd (run rs s) ! p))"
proof (induction rs arbitrary: s)
  case Nil
  then show ?case by simp
next
  case (Cons r rs)
  from log_grows_perform [OF Cons.prems, of r]
  have 1: "p < length (snd (perform r s))"
    and 2: "prefix (transactions (snd s ! p)) (transactions (snd (perform r s) ! p))"
    by simp_all
  from Cons.IH [OF 1] 2 show ?case
    by (auto intro: prefix_order.trans)
qed

lemma wait_next_transactions_run:
  "wait_next_transactions it rss s = Some (ts, it', s') \<Longrightarrow> s' = run (concat rss) s"
proof (induction rss arbitrary: it s ts)
  case Nil
  then show ?case by simp
next
  case (Cons rs rss)
  from Cons.prems obtain t it1 ts1 where
    "wait_next_transactions it1 rss (run rs s) = Some (ts1, it', s')"
    by (auto split: option.splits)
  then have "s' = run (concat rss) (run rs s)"
    by (rule Cons.IH)
  then show ?case
    by (simp add: run_append)
qed

lemma wait_next_transactions_delivers:
  assumes "wait_next_transactions it rss s = Some (ts, it', s')"
    and "user it < length (snd s)"
  shows "ts = take (length rss) (drop (index it) (transactions (snd s' ! user it))) \<and>
    length ts = length rss \<and> user it' = user it \<and> index it' = index it + length rss"
  using assms
proof (induction rss arbitrary: it s ts)
  case Nil
  then show ?case by simp
next
  case (Cons rs rss)
  let ?s1 = "run rs s"
  from Cons.prems(1) obtain t it1 ts1 where
    w: "wait_next_transaction it (snd ?s1) = Some (t, it1)"
    and rest: "wait_next_transactions it1 rss ?s1 = Some (ts1, it', s')"
    and ts: "ts = t # ts1"
    by (auto split: option.splits)
  from w have lt: "index it < length (transactions (snd ?s1 ! user it))"
    and t: "t = transactions (snd ?s1 ! user it) ! index it"
    and it1: "it1 = it\<lparr>index := Suc (index it)\<rparr>"
    by (auto simp: wait_next_transaction_def split: if_splits)
  have valid1: "user it1 < length (snd ?s1)"
    using log_grows_run [OF Cons.prems(2), of rs] it1 by simp
  note ih = Cons.IH [OF rest valid1]
  have s': "s' = run (concat rss) ?s1"
    using rest by (rule wait_next_transactions_run)
  have "prefix (transactions (snd ?s1 ! user it)) (transactions (snd s' ! user it))"
    using log_grows_run [of "user it" ?s1 "concat rss"] valid1 it1 s' by simp
  then obtain zs where app: "transactions (snd s' ! user it) = transactions (snd ?s1 ! user it) @ zs"
    by (auto simp: prefix_def)
  have lt': "index it < length (transactions (snd s' ! user it))"
    using lt app by simp
  have t': "t = transactions (snd s' ! user it) ! index it"
    using t lt app by (simp add: nth_append)
  have "take (Suc (length rss)) (drop (index it) (transactions (snd s' ! user it))) =
      transactions (snd s' ! user it) ! index it #
      take (length rss) (drop (Suc (index it)) (transactions (snd s' ! user it)))"
    using lt' by (simp add: Cons_nth_drop_Suc [symmetric])
  then have 1: "ts = take (length (rs # rss)) (drop (index it) (transactions (snd s' ! user it)))"
    using ih ts t' it1 by simp
  have "length ts1 = length rss"
    using ih by blast
  then have 2: "length ts = length (rs # rss)"
    unfolding ts by simp
  have 3: "user it' = user it" and 4: "index it' = index it + length (rs # rss)"
    using ih it1 by simp_all
  from 1 2 3 4 show ?case
    by (intro conjI)
qed

lemma wait_next_transactions_returns:
  assumes "\<forall>k < length rss.
      index it + k < length (transactions (snd (run (concat (take (Suc k) rss)) s) ! user it))"
  shows "wait_next_transactions it rss s \<noteq> None"
  using assms
proof (induction rss arbitrary: it s)
  case Nil
  then show ?case by simp
next
  case (Cons rs rss)
  from Cons.prems have "index it + 0 < length (transactions (snd (run (concat (take (Suc 0) (rs # rss))) s) ! user it))"
    by blast
  then have lt: "index it < length (transactions (snd (run rs s) ! user it))"
    by simp
  let ?it1 = "it\<lparr>index := Suc (index it)\<rparr>"
  have w: "wait_next_transaction it (snd (run rs s)) =
      Some (transactions (snd (run rs s) ! user it) ! index it, ?it1)"
    using lt by (simp add: wait_next_transaction_def)
  have "index ?it1 + k < length (transactions (snd (run (concat (take (Suc k) rss)) (run rs s)) ! user ?it1))"
    if "k < length rss" for k
  proof -
    from that Cons.prems
    have "index it + Suc k <
        length (transactions (snd (run (concat (take (Suc (Suc k)) (rs # rss))) s) ! user it))"
      by (metis Suc_less_eq length_Cons)
    then show ?thesis
      by (simp add: run_append)
  qed
  then have "wait_next_transactions ?it1 rss (run rs s) \<noteq> None"
    by (intro Cons.IH) blast
  then show ?case
    using w by (auto split: option.splits)
qed

text \<open>
  Claim C6. A cursor on a live account is polled \<open>N\<close> times while other calls go on
  (a batch of requests before each poll). If all \<open>N\<close> calls of
  \<^verbatim>\<open>wait_next_transaction\<close> return, they return exactly the entries of the account's
  log at the positions \<open>i, i + 1, \<dots>, i + N - 1\<close>, in this order, where \<open>i\<close> is the position
  of the cursor at the start; the cursor ends at \<open>i + N\<close> on the same account. They do
  all return when at each poll the log is longer than the position reached. One call
  returns exactly when the log is longer than the cursor's position, and then returns the
  entry at the position and moves the cursor by one. A cursor made by \<^verbatim>\<open>monitor\<close> or
  returned by \<^verbatim>\<open>snapshot_transactions\<close> starts at the length of the log.
\<close>

theorem cursor_delivers_log_in_order:
  assumes "user it < length (snd s)"
  shows "(\<forall>ts it' s'. wait_next_transactions it rss s = Some (ts, it', s') \<longrightarrow>
       s' = run (concat rss) s \<and>
       ts = take (length rss) (drop (index it) (transactions (snd s' ! user it))) \<and>
       length ts = length rss \<and> user it' = user it \<and> index it' = index it + length rss) \<and>
    ((\<forall>k < length rss.
        index it + k < length (transactions (snd (run (concat (take (Suc k) rss)) s) ! user it)))
       \<longrightarrow> wait_next_transactions it rss s \<noteq> None) \<and>
    (\<forall>m. wait_next_transaction it m =
       (if index it < length (transactions (m ! user it))
        then Some (transactions (m ! user it) ! index it, it\<lparr>index := Suc (index it)\<rparr>)
        else None)) \<and>
    (\<forall>p m f. monitor p m = \<lparr>user = p, index = length (transactions (m ! p))\<rparr> \<and>
       snd (snapshot_transactions f p m) = monitor p m)"
proof (intro conjI allI impI)
  fix ts it' s'
  assume w: "wait_next_transactions it rss s = Some (ts, it', s')"
  from w show "s' = run (concat rss) s"
    by (rule wait_next_transactions_run)
  from wait_next_transactions_delivers [OF w assms]
  show "ts = take (length rss) (drop (index it) (transactions (snd s' ! user it)))"
    and "length ts = length rss" and "user it' = user it"
    and "index it' = index it + length rss"
    by blast+
next
  assume "\<forall>k < length rss.
      index it + k < length (transactions (snd (run (concat (take (Suc k) rss)) s) ! user it))"
  then show "wait_next_transactions it rss s \<noteq> None"
    by (rule wait_next_transactions_returns)
qed (simp_all add: wait_next_transaction_def monitor_def snapshot_transactions_def)

theorem cursor_delivers_log_in_order_witness:
  "user (monitor 0 [new_user ''Alice'', new_user ''Bob'']) < length [new_user ''Alice'', new_user ''Bob''] \<and>
   (\<exists>ts it' s'.
      wait_next_transactions (monitor 0 [new_user ''Alice'', new_user ''Bob''])
        [[Transfer 0 1 40 ''Test transfer from Alice''], [Transfer 1 0 20 ''Test transfer from Bob'']]
        (\<lparr>users = [''Alice'' \<mapsto> 0, ''Bob'' \<mapsto> 1]\<rparr>, [new_user ''Alice'', new_user ''Bob'']) =
        Some (ts, it', s') \<and>
      ts = [\<lparr>counterparty = Some 1, balance_delta_xts = - 40, comment = ''Test transfer from Alice''\<rparr>,
            \<lparr>counterparty = Some 1, balance_delta_xts = 20, comment = ''Test transfer from Bob''\<rparr>] \<and>
      index it' = 3 \<and> user it' = 0)"
proof -
  let ?m = "[new_user ''Alice'', new_user ''Bob'']"
  let ?s = "(\<lparr>users = [''Alice'' \<mapsto> 0, ''Bob'' \<mapsto> 1]\<rparr>, ?m)"
  let ?rss = "[[Transfer 0 1 40 ''Test transfer from Alice''], [Transfer 1 0 20 ''Test transfer from Bob'']]"
  have h: "user (monitor 0 ?m) < length (snd ?s)"
    by (simp add: monitor_def)
  have i: "index (monitor 0 ?m) = 1"
    by (simp add: monitor_def new_user_fields)
  have "wait_next_transactions (monitor 0 ?m) ?rss ?s \<noteq> None"
    by (simp add: monitor_def new_user_fields transfer_def Let_def add_transaction_def
          wait_next_transaction_def)
  then obtain ts it' s' where w: "wait_next_transactions (monitor 0 ?m) ?rss ?s = Some (ts, it', s')"
    by auto
  from cursor_delivers_log_in_order [OF h, of ?rss] w
  have s': "s' = run (concat ?rss) ?s"
    and ts: "ts = take (length ?rss) (drop (index (monitor 0 ?m)) (transactions (snd s' ! user (monitor 0 ?m))))"
    and u: "user it' = user (monitor 0 ?m)"
    and ix: "index it' = index (monitor 0 ?m) + length ?rss"
    by blast+
  have ts': "ts = [\<lparr>counterparty = Some 1, balance_delta_xts = - 40, comment = ''Test transfer from Alice''\<rparr>,
            \<lparr>counterparty = Some 1, balance_delta_xts = 20, comment = ''Test transfer from Bob''\<rparr>]"
    unfolding ts s' i
    by (simp add: monitor_def new_user_fields transfer_def Let_def add_transaction_def)
  have "index it' = 3" "user it' = 0"
    using ix u i by (simp_all add: monitor_def)
  with w ts' h show ?thesis
    by auto
qed

section \<open>The transactions command\<close>

lemma print_transactions_done:
  "\<not> sint i < sint (size_int ts) \<Longrightarrow> print_transactions m ts i = []"
  by (subst print_transactions.simps) simp

lemma print_transactions_more:
  "sint i < sint (size_int ts) \<Longrightarrow> print_transactions m ts i =
     transaction_line m (ts ! unat (scast i :: size_t)) @ print_transactions m ts (i + 1)"
  by (subst print_transactions.simps) simp

lemma size_int_of_nat: "size_int xs = (of_nat (length xs) :: int32)"
  unfolding size_int_def
  by (simp add: unsigned_of_nat word_of_nat_eq_iff)

lemma size_int_small:
  assumes "length xs < 2 ^ 31"
  shows "sint (size_int xs) = int (length xs)"
  using assms by (simp add: size_int_of_nat signed_of_nat signed_take_bit_int_eq_self)

lemma mod_64_32:
  fixes x u :: int
  shows "((x mod 2 ^ 64 - u) mod 2 ^ 64) mod 2 ^ 32 = (x - u) mod 2 ^ 32"
proof -
  have d: "(2 ^ 32 :: int) dvd 2 ^ 64"
    by (rule le_imp_power_dvd) simp
  have "((x mod 2 ^ 64 - u) mod 2 ^ 64) mod 2 ^ 32 = (x mod 2 ^ 64 - u) mod 2 ^ 32"
    using d by (rule mod_mod_cancel)
  also have "\<dots> = ((x mod 2 ^ 64) mod 2 ^ 32 - u) mod 2 ^ 32"
    by (simp only: mod_diff_left_eq)
  also have "(x mod 2 ^ 64) mod 2 ^ 32 = x mod 2 ^ 32"
    using d by (rule mod_mod_cancel)
  also have "(x mod 2 ^ 32 - u) mod 2 ^ 32 = (x - u) mod 2 ^ 32"
    by (simp only: mod_diff_left_eq)
  finally show ?thesis .
qed

lemma start_cast:
  "uint (ucast ((of_nat k :: size_t) - n) :: int32) = (int k - uint n) mod 2 ^ 32"
proof -
  have "uint (ucast ((of_nat k :: size_t) - n) :: int32) =
      take_bit 32 (uint ((of_nat k :: size_t) - n))"
    by (simp add: unsigned_ucast_eq)
  also have "uint ((of_nat k :: size_t) - n) = (uint (of_nat k :: size_t) - uint n) mod 2 ^ 64"
    by (simp add: uint_word_ariths)
  also have "uint (of_nat k :: size_t) = int k mod 2 ^ 64"
    by (simp add: unsigned_of_nat take_bit_eq_mod zmod_int)
  finally show ?thesis
    by (simp only: take_bit_eq_mod mod_64_32)
qed

lemma start_value:
  assumes "- (2 ^ 31) \<le> int k - uint n" and "int k - uint n < 2 ^ 31"
  shows "sint (ucast ((of_nat k :: size_t) - n) :: int32) = int k - uint n"
proof -
  have "sint (ucast ((of_nat k :: size_t) - n) :: int32) =
      signed_take_bit 31 ((int k - uint n) mod 2 ^ 32)"
    by (simp add: sint_uint start_cast)
  also have "\<dots> = signed_take_bit 31 (take_bit 32 (int k - uint n))"
    by (simp add: take_bit_eq_mod)
  also have "\<dots> = signed_take_bit 31 (int k - uint n)"
    by (simp add: signed_take_bit_take_bit)
  also have "\<dots> = int k - uint n"
    using assms by (intro signed_take_bit_int_eq_self) simp_all
  finally show ?thesis .
qed

lemma index_cast:
  assumes "0 \<le> sint (i :: int32)"
  shows "unat (scast i :: size_t) = nat (sint i)"
proof -
  have "sint i < 2 ^ 64"
    using sint_lt [of i] by simp
  have "uint (scast i :: size_t) = uint (word_of_int (sint i) :: size_t)"
    by (simp only: scast_eq)
  also have "\<dots> = sint i mod 2 ^ 64"
    by (simp add: uint_word_of_int del: of_int_sint)
  also have "\<dots> = sint i"
    using assms \<open>sint i < 2 ^ 64\<close> by simp
  finally have "uint (scast i :: size_t) = sint i" .
  then show ?thesis
    by (simp add: unat_eq_nat_uint)
qed

lemma print_transactions_drop:
  assumes "length ts < 2 ^ 31" and "0 \<le> sint i" and "sint i \<le> int (length ts)"
  shows "print_transactions m ts i = concat (map (transaction_line m) (drop (nat (sint i)) ts))"
  using assms(2,3)
proof (induction "length ts - nat (sint i)" arbitrary: i)
  case 0
  then have "\<not> sint i < sint (size_int ts)"
    using assms(1) by (simp add: size_int_small)
  moreover from 0 have "drop (nat (sint i)) ts = []"
    by simp
  ultimately show ?case
    by (simp add: print_transactions_done)
next
  case (Suc d)
  then have lt: "sint i < int (length ts)"
    by linarith
  then have more: "sint i < sint (size_int ts)"
    using assms(1) by (simp add: size_int_small)
  have next_i: "sint (i + 1) = sint i + 1"
    using lt assms(1) Suc.prems(1) by (simp add: sint_word_add signed_take_bit_int_eq_self)
  have ih: "print_transactions m ts (i + 1) =
      concat (map (transaction_line m) (drop (nat (sint (i + 1))) ts))"
    using Suc.hyps(2) Suc.prems lt next_i by (intro Suc.hyps(1)) simp_all
  have k: "nat (sint i) < length ts"
    using lt Suc.prems(1) by simp
  have "drop (nat (sint i)) ts = ts ! nat (sint i) # drop (nat (sint (i + 1))) ts"
    using k Suc.prems(1) by (simp add: next_i nat_add_distrib Cons_nth_drop_Suc)
  then show ?case
    using more ih Suc.prems(1) by (simp add: print_transactions_more index_cast)
qed

text \<open>
  Where the count exceeds the size of the log by no more than \<open>2 ^ 31\<close> (and the log has
  fewer than \<open>2 ^ 31\<close> entries), the command prints the header, the last
  \<open>min N (length log)\<close> entries in the order of the log and the balance.
\<close>

lemma get_transactions_in_range:
  assumes small: "length (transactions (m ! this)) < 2 ^ 31"
    and near: "unat n \<le> length (transactions (m ! this)) + 2 ^ 31"
  shows "get_transactions n this m =
     ''CPTY'' @ [CHR 0x09] @ ''BAL'' @ [CHR 0x09] @ ''COMM'' @ [CHR 0x0A] @
     concat (map (transaction_line m)
       (drop (length (transactions (m ! this)) - unat n) (transactions (m ! this)))) @
     ''===== BALANCE: '' @ to_string (sint (balance (m ! this))) @ '' XTS ====='' @ [CHR 0x0A]"
proof -
  let ?ts = "transactions (m ! this)"
  let ?d = "ucast ((of_nat (length ?ts) :: size_t) - n) :: int32"
  let ?start = "if sint ?d < 0 then 0 else ?d"
  have u: "uint n = int (unat n)"
    by (rule uint_nat)
  have near_num: "unat n \<le> length ?ts + 2147483648" and small_num: "length ?ts < 2147483648"
    using near small by simp_all
  have lo: "- 2147483648 \<le> int (length ?ts) - int (unat n)"
    using near_num by linarith
  have hi: "int (length ?ts) - int (unat n) < 2147483648"
    using small_num by linarith
  have "sint ?d = int (length ?ts) - uint n"
    using lo hi by (intro start_value) simp_all
  then have d: "sint ?d = int (length ?ts) - int (unat n)"
    unfolding u .
  have st: "sint ?start = int (length ?ts - unat n)"
  proof (cases "sint ?d < 0")
    case True
    then have "length ?ts - unat n = 0"
      using d by linarith
    with True show ?thesis by simp
  next
    case False
    then have "sint ?d = int (length ?ts - unat n)"
      using d by linarith
    with False show ?thesis by (simp only: if_False)
  qed
  have s0: "0 \<le> sint ?start" and s1: "sint ?start \<le> int (length ?ts)"
    and s2: "nat (sint ?start) = length ?ts - unat n"
    unfolding st by simp_all
  have "print_transactions m ?ts ?start =
      concat (map (transaction_line m) (drop (nat (sint ?start)) ?ts))"
    using small s0 s1 by (rule print_transactions_drop)
  then have "print_transactions m ?ts ?start =
      concat (map (transaction_line m) (drop (length ?ts - unat n) ?ts))"
    by (simp only: s2)
  then show ?thesis
    by (simp add: get_transactions_def snapshot_transactions_def Let_def)
qed

text \<open>
  Claim C9 says that \<^verbatim>\<open>transactions <N>\<close> prints the header, the last \<open>min N (length log)\<close>
  entries and the balance, also when \<open>N\<close> exceeds the length of the log. The code
  computes the first index as \<^verbatim>\<open>std::max(static_cast<int>(transactions.size() - n), 0)\<close>:
  the difference is taken in \<^verbatim>\<open>size_t\<close> and then cut to 32 bits, which is negative
  (and clamped to 0) only while \<open>N\<close> exceeds the length by at most \<open>2 ^ 31\<close>. For the
  new account of Alice, whose log has one entry, the command with \<open>N = 3000000000\<close>
  prints the header and the balance and no entry, where the command with \<open>N = 1\<close>
  prints the entry.
\<close>

theorem get_transactions_huge_count:
  "get_transactions 3000000000 0 [new_user ''Alice''] =
     ''CPTY'' @ [CHR 0x09] @ ''BAL'' @ [CHR 0x09] @ ''COMM'' @ [CHR 0x0A] @
     ''===== BALANCE: 100 XTS ====='' @ [CHR 0x0A] \<and>
   get_transactions 1 0 [new_user ''Alice''] =
     ''CPTY'' @ [CHR 0x09] @ ''BAL'' @ [CHR 0x09] @ ''COMM'' @ [CHR 0x0A] @
     ''-'' @ [CHR 0x09] @ ''100'' @ [CHR 0x09] @ ''Initial deposit for Alice'' @ [CHR 0x0A] @
     ''===== BALANCE: 100 XTS ====='' @ [CHR 0x0A] \<and>
   length (transactions ([new_user ''Alice''] ! 0)) = 1"
proof -
  have s: "size_int [x] = 1" for x :: transaction
    by (simp add: size_int_def)
  have none: "print_transactions m [x] i = []" if "1 \<le> sint i" for m x i
    using that by (intro print_transactions_done) (simp add: s)
  have one: "print_transactions m [x] 0 = transaction_line m x" for m x
    by (simp add: print_transactions_more s print_transactions_done)
  have 1: "get_transactions 3000000000 0 [new_user ''Alice''] =
     ''CPTY'' @ [CHR 0x09] @ ''BAL'' @ [CHR 0x09] @ ''COMM'' @ [CHR 0x0A] @
     ''===== BALANCE: 100 XTS ====='' @ [CHR 0x0A]"
    by (simp add: get_transactions_def snapshot_transactions_def new_user_fields none
          to_string_def digits_small digits_large)
  have 2: "get_transactions 1 0 [new_user ''Alice''] =
     ''CPTY'' @ [CHR 0x09] @ ''BAL'' @ [CHR 0x09] @ ''COMM'' @ [CHR 0x0A] @
     ''-'' @ [CHR 0x09] @ ''100'' @ [CHR 0x09] @ ''Initial deposit for Alice'' @ [CHR 0x0A] @
     ''===== BALANCE: 100 XTS ====='' @ [CHR 0x0A]"
    by (simp add: get_transactions_def snapshot_transactions_def new_user_fields one
          transaction_line_def to_string_def digits_small digits_large)
  have 3: "length (transactions ([new_user ''Alice''] ! 0)) = 1"
    by (simp add: new_user_fields)
  from 1 2 3 show ?thesis by (intro conjI)
qed

section \<open>The monitor command\<close>

text \<open>
  Claim C8 says that \<^verbatim>\<open>monitor <N>\<close> pushes every transaction appended after the state
  its snapshot showed. The code prints the snapshot in \<^verbatim>\<open>get_transactions\<close>, drops the
  cursor that \<^verbatim>\<open>snapshot_transactions\<close> returns, and takes a new cursor with
  \<^verbatim>\<open>user_->monitor()\<close> under a second acquisition of the lock. In the schedule below
  Bob's transfer of 10 to Alice runs between the two: it is in Alice's log (second
  entry), it is not in the snapshot printed to Alice's session, and the session, which
  goes on to push the later transfer of 20, never pushes it.
\<close>

theorem monitor_misses_transaction:
  "monitor_run 1 0
     [Session, Other (Transfer 1 0 10 ''lost''), Session, Session,
      Other (Transfer 1 0 20 ''seen''), Session, Session]
     At_get_transactions
     (\<lparr>users = [''Alice'' \<mapsto> 0, ''Bob'' \<mapsto> 1]\<rparr>, [new_user ''Alice'', new_user ''Bob'']) =
     ''CPTY'' @ [CHR 0x09] @ ''BAL'' @ [CHR 0x09] @ ''COMM'' @ [CHR 0x0A] @
     ''-'' @ [CHR 0x09] @ ''100'' @ [CHR 0x09] @ ''Initial deposit for Alice'' @ [CHR 0x0A] @
     ''===== BALANCE: 100 XTS ====='' @ [CHR 0x0A] @
     ''Bob'' @ [CHR 0x09] @ ''20'' @ [CHR 0x09] @ ''seen'' @ [CHR 0x0A] \<and>
   transactions (snd (run [Transfer 1 0 10 ''lost'', Transfer 1 0 20 ''seen'']
     (\<lparr>users = [''Alice'' \<mapsto> 0, ''Bob'' \<mapsto> 1]\<rparr>, [new_user ''Alice'', new_user ''Bob''])) ! 0) =
     [\<lparr>counterparty = None, balance_delta_xts = 100, comment = ''Initial deposit for Alice''\<rparr>,
      \<lparr>counterparty = Some 1, balance_delta_xts = 10, comment = ''lost''\<rparr>,
      \<lparr>counterparty = Some 1, balance_delta_xts = 20, comment = ''seen''\<rparr>]"
proof -
  have s: "size_int [x] = 1" for x :: transaction
    by (simp add: size_int_def)
  have one: "print_transactions m [x] 0 = transaction_line m x" for m x
    by (simp add: print_transactions_more s print_transactions_done)
  have 1: "monitor_run 1 0
     [Session, Other (Transfer 1 0 10 ''lost''), Session, Session,
      Other (Transfer 1 0 20 ''seen''), Session, Session]
     At_get_transactions
     (\<lparr>users = [''Alice'' \<mapsto> 0, ''Bob'' \<mapsto> 1]\<rparr>, [new_user ''Alice'', new_user ''Bob'']) =
     ''CPTY'' @ [CHR 0x09] @ ''BAL'' @ [CHR 0x09] @ ''COMM'' @ [CHR 0x0A] @
     ''-'' @ [CHR 0x09] @ ''100'' @ [CHR 0x09] @ ''Initial deposit for Alice'' @ [CHR 0x0A] @
     ''===== BALANCE: 100 XTS ====='' @ [CHR 0x0A] @
     ''Bob'' @ [CHR 0x09] @ ''20'' @ [CHR 0x09] @ ''seen'' @ [CHR 0x0A]"
    by (simp add: get_transactions_def snapshot_transactions_def new_user_fields one
          transaction_line_def to_string_def digits_small digits_large
          transfer_def Let_def add_transaction_def monitor_def wait_next_transaction_def)
  have 2: "transactions (snd (run [Transfer 1 0 10 ''lost'', Transfer 1 0 20 ''seen'']
     (\<lparr>users = [''Alice'' \<mapsto> 0, ''Bob'' \<mapsto> 1]\<rparr>, [new_user ''Alice'', new_user ''Bob''])) ! 0) =
     [\<lparr>counterparty = None, balance_delta_xts = 100, comment = ''Initial deposit for Alice''\<rparr>,
      \<lparr>counterparty = Some 1, balance_delta_xts = 10, comment = ''lost''\<rparr>,
      \<lparr>counterparty = Some 1, balance_delta_xts = 20, comment = ''seen''\<rparr>]"
    by (simp add: new_user_fields transfer_def Let_def add_transaction_def)
  from 1 2 show ?thesis by (intro conjI)
qed

section \<open>The sign of a balance\<close>

lemma sum_list_map_update:
  fixes f :: "'a \<Rightarrow> int"
  shows "i < length xs \<Longrightarrow>
    sum_list (map f (xs[i := x])) = sum_list (map f xs) - f (xs ! i) + f x"
proof (induction xs arbitrary: i)
  case Nil
  then show ?case by simp
next
  case (Cons y ys)
  then show ?case by (cases i) simp_all
qed

lemma two_elements_le_sum_list:
  fixes f :: "'a \<Rightarrow> int"
  assumes "\<forall>k < length xs. 0 \<le> f (xs ! k)" and "i < length xs" and "j < length xs" and "i \<noteq> j"
  shows "f (xs ! i) + f (xs ! j) \<le> sum_list (map f xs)"
proof -
  have "sum_list (map f xs) = (\<Sum>k = 0..<length xs. f (xs ! k))"
    by (simp add: sum_list_sum_nth)
  moreover have "(\<Sum>k \<in> {i, j}. f (xs ! k)) \<le> (\<Sum>k = 0..<length xs. f (xs ! k))"
    using assms by (intro sum_mono2) auto
  moreover have "(\<Sum>k \<in> {i, j}. f (xs ! k)) = f (xs ! i) + f (xs ! j)"
    using assms(4) by simp
  ultimately show ?thesis by simp
qed

lemma funds_conserved_transfer:
  assumes inv: "funds_conserved m" and bound: "100 * int (length m) \<le> 2147483647"
    and src: "this < length m" and dst: "cpty < length m"
  shows "funds_conserved (snd (transfer this cpty amount_xts cmt m))"
proof -
  let ?f = "\<lambda>u. sint (balance u)"
  let ?u1 = "(m ! this)\<lparr>balance := balance (m ! this) - amount_xts,
           transactions := transactions (m ! this) @
             [\<lparr>counterparty = Some cpty, balance_delta_xts = - amount_xts, comment = cmt\<rparr>],
           cv_new_transaction := Suc (cv_new_transaction (m ! this))\<rparr>"
  let ?u2 = "(m ! cpty)\<lparr>balance := balance (m ! cpty) + amount_xts,
           transactions := transactions (m ! cpty) @
             [\<lparr>counterparty = Some this, balance_delta_xts = amount_xts, comment = cmt\<rparr>],
           cv_new_transaction := Suc (cv_new_transaction (m ! cpty))\<rparr>"
  from transfer_result [OF src dst, of amount_xts cmt] show ?thesis
  proof (elim disjE conjE)
    assume "snd (transfer this cpty amount_xts cmt m) = m"
    then show ?thesis using inv by simp
  next
    assume ne: "this \<noteq> cpty" and a0: "0 \<le> sint amount_xts"
      and ok: "0 \<le> sint (balance (m ! this) - amount_xts)"
      and eq: "snd (transfer this cpty amount_xts cmt m) = m[this := ?u1, cpty := ?u2]"
    have nonneg: "\<forall>k < length m. 0 \<le> ?f (m ! k)"
      and total: "sum_list (map ?f m) = 100 * int (length m)"
      using inv by (simp_all add: funds_conserved_def total_xts_def)
    have b0: "0 \<le> sint (balance (m ! this))"
      using nonneg src by simp
    have debit: "sint (balance (m ! this) - amount_xts) = sint (balance (m ! this)) - sint amount_xts"
      using a0 b0 by (rule sint32_debit)
    have "?f (m ! this) + ?f (m ! cpty) \<le> sum_list (map ?f m)"
      using nonneg src dst ne by (rule two_elements_le_sum_list)
    then have "sint (balance (m ! cpty)) + sint amount_xts \<le> 2147483647"
      using total bound debit ok by simp
    moreover have c0: "0 \<le> sint (balance (m ! cpty))"
      using nonneg dst by simp
    ultimately have credit:
      "sint (balance (m ! cpty) + amount_xts) = sint (balance (m ! cpty)) + sint amount_xts"
      using a0 by (intro sint32_add) simp_all
    have f1: "?f ?u1 = ?f (m ! this) - sint amount_xts" and f2: "?f ?u2 = ?f (m ! cpty) + sint amount_xts"
      using debit credit by simp_all
    have "sum_list (map ?f (m[this := ?u1, cpty := ?u2])) =
        sum_list (map ?f (m[this := ?u1])) - ?f (m[this := ?u1] ! cpty) + ?f ?u2"
      using dst by (intro sum_list_map_update) simp
    also have "\<dots> = (sum_list (map ?f m) - ?f (m ! this) + ?f ?u1) - ?f (m ! cpty) + ?f ?u2"
      using src ne by (simp add: sum_list_map_update)
    also have "\<dots> = sum_list (map ?f m)"
      unfolding f1 f2 by simp
    finally have tot': "total_xts (m[this := ?u1, cpty := ?u2]) = 100 * int (length m)"
      using total by (simp add: total_xts_def)
    have "0 \<le> ?f (m[this := ?u1, cpty := ?u2] ! k)" if "k < length m" for k
    proof -
      consider "k = cpty" | "k = this" "k \<noteq> cpty" | "k \<noteq> this" "k \<noteq> cpty" by blast
      then show ?thesis
      proof cases
        case 1
        then show ?thesis using dst f2 c0 a0 by simp
      next
        case 2
        then show ?thesis using src f1 debit ok by simp
      next
        case 3
        then show ?thesis using nonneg that by simp
      qed
    qed
    with tot' show ?thesis
      unfolding eq by (simp add: funds_conserved_def)
  qed
qed

lemma funds_conserved_perform:
  assumes "funds_conserved (snd s)" and "100 * int (length (snd (perform r s))) \<le> 2147483647"
  shows "funds_conserved (snd (perform r s))"
proof (cases s)
  case (Pair l m)
  show ?thesis
  proof (cases r)
    case (Get_or_create nm)
    then show ?thesis
      using assms(1) Pair
      by (auto simp: get_or_create_user_def funds_conserved_def total_xts_def nth_append
            new_user_fields less_Suc_eq split: option.splits)
  next
    case (Transfer this cpty amount_xts cmt)
    show ?thesis
    proof (cases "this < length m \<and> cpty < length m")
      case True
      then have "funds_conserved (snd (transfer this cpty amount_xts cmt m))"
        using assms Pair Transfer by (intro funds_conserved_transfer) (simp_all add: length_transfer)
      then show ?thesis
        using True Pair Transfer by simp
    next
      case False
      then show ?thesis
        using assms(1) Pair Transfer by auto
    qed
  qed
qed

lemma length_perform: "length (snd s) \<le> length (snd (perform r s))"
proof (cases s)
  case (Pair l m)
  then show ?thesis
    by (cases r) (simp_all add: get_or_create_user_def length_transfer split: option.splits)
qed

lemma length_run: "length (snd s) \<le> length (snd (run rs s))"
proof (induction rs arbitrary: s)
  case Nil
  then show ?case by simp
next
  case (Cons r rs)
  from length_perform [of s r] Cons [of "perform r s"] show ?case by simp
qed

lemma funds_conserved_run:
  "funds_conserved (snd s) \<Longrightarrow> 100 * int (length (snd (run rs s))) \<le> 2147483647 \<Longrightarrow>
   funds_conserved (snd (run rs s))"
proof (induction rs arbitrary: s)
  case Nil
  then show ?case by simp
next
  case (Cons r rs)
  have "length (snd (perform r s)) \<le> length (snd (run rs (perform r s)))"
    by (rule length_run)
  with Cons.prems(2) have "100 * int (length (snd (perform r s))) \<le> 2147483647"
    by simp
  with Cons.prems(1) have "funds_conserved (snd (perform r s))"
    by (rule funds_conserved_perform)
  with Cons.IH [of "perform r s"] Cons.prems(2) show ?case by simp
qed

lemma debit_keeps_source_non_negative:
  assumes "this < length m" and "cpty < length m" and "0 \<le> sint (balance (m ! this))"
  shows "0 \<le> sint (balance (snd (transfer this cpty amount_xts cmt m) ! this))"
  using transfer_result [OF assms(1,2), of amount_xts cmt] assms
  by (elim disjE conjE) (simp_all add: nth_list_update)

lemma funnel_state:
  "length (snd (run (funnel n) empty_bank)) = Suc n \<and>
   (\<forall>k \<le> n. name (snd (run (funnel n) empty_bank) ! k) = replicate k CHR ''a'') \<and>
   balance (snd (run (funnel n) empty_bank) ! 0) = 100 * (of_nat n + 1)"
proof (induction n)
  case 0
  show ?case
    by (simp add: empty_bank_def get_or_create_user_def new_user_fields)
next
  case (Suc n)
  obtain l m where s: "run (funnel n) empty_bank = (l, m)"
    by (cases "run (funnel n) empty_bank")
  let ?nm = "replicate (Suc n) CHR ''a''"
  from Suc s have len: "length m = Suc n"
    and names: "\<forall>k \<le> n. name (m ! k) = replicate k CHR ''a''"
    and bal: "balance (m ! 0) = 100 * (of_nat n + 1)"
    by simp_all
  have own: "ledger_owns l m"
    using ledger_owns_run [OF ledger_owns_empty, of "funnel n"] s by simp
  have absent: "users l ?nm = None"
  proof (rule ccontr)
    assume "users l ?nm \<noteq> None"
    then obtain p where "users l ?nm = Some p" by auto
    with own have "p < length m" and "name (m ! p) = ?nm"
      by (auto simp: ledger_owns_def)
    with names len have "replicate p CHR ''a'' = ?nm" by simp
    then have "length (replicate p CHR ''a'') = length ?nm" by (rule arg_cong)
    with \<open>p < length m\<close> len show False by simp
  qed
  let ?m1 = "m @ [new_user ?nm]"
  let ?m2 = "snd (transfer (Suc n) 0 100 [] ?m1)"
  have run: "run (funnel (Suc n)) empty_bank = (l\<lparr>users := (users l)(?nm \<mapsto> length m)\<rparr>, ?m2)"
    using s absent len by (simp add: run_append get_or_create_user_def)
  have src: "Suc n < length ?m1" and dst: "0 < length ?m1"
    using len by simp_all
  have b1: "balance (?m1 ! Suc n) = 100"
    using len by (simp add: nth_append new_user_fields)
  have ok: "0 \<le> sint (balance (?m1 ! Suc n) - 100)"
    unfolding b1 by simp
  note eq = transfer_ok [OF _ src dst _ ok, of "[]"]
  have 1: "length ?m2 = Suc (Suc n)"
    using len by (simp add: length_transfer)
  have 2: "name (?m2 ! k) = replicate k CHR ''a''" if "k \<le> Suc n" for k
  proof -
    have "name (?m2 ! k) = name (?m1 ! k)"
      using that len by (intro name_transfer) simp_all
    also have "\<dots> = replicate k CHR ''a''"
      using that names len by (cases "k = Suc n") (simp_all add: nth_append new_user_fields)
    finally show ?thesis .
  qed
  have "balance (?m2 ! 0) = balance (?m1 ! 0) + 100"
    using len by (subst eq) simp_all
  also have "\<dots> = 100 * (of_nat (Suc n) + 1)"
    using bal len by (simp add: nth_append algebra_simps)
  finally have 3: "balance (?m2 ! 0) = 100 * (of_nat (Suc n) + 1)" .
  from 1 2 3 show ?case
    unfolding run by simp
qed

text \<open>
  Claim C2, as the code has it. In every state that lookups and transfers reach from a
  new ledger, every balance is non-negative as long as the bank holds at most 21474836
  accounts, that is, as long as the funds of the bank, 100 XTS for each account, fit
  into an \<^verbatim>\<open>int\<close>. Whatever the number of accounts, a transfer never takes the balance
  of its source below zero.
\<close>

theorem balance_never_negative_small_bank:
  assumes "run rs empty_bank = (l, m)"
  shows "(100 * int (length m) \<le> 2147483647 \<longrightarrow> (\<forall>p < length m. 0 \<le> sint (balance (m ! p)))) \<and>
    (\<forall>this cpty amount_xts cmt. this < length m \<and> cpty < length m \<and> 0 \<le> sint (balance (m ! this))
       \<longrightarrow> 0 \<le> sint (balance (snd (transfer this cpty amount_xts cmt m) ! this)))"
proof (intro conjI impI allI)
  fix p
  assume "100 * int (length m) \<le> 2147483647" and "p < length m"
  moreover have "funds_conserved (snd empty_bank)"
    by (simp add: empty_bank_def funds_conserved_def total_xts_def)
  ultimately have "funds_conserved (snd (run rs empty_bank))"
    using assms by (intro funds_conserved_run) simp_all
  with assms \<open>p < length m\<close> show "0 \<le> sint (balance (m ! p))"
    by (simp add: funds_conserved_def)
next
  fix this cpty amount_xts cmt
  assume "this < length m \<and> cpty < length m \<and> 0 \<le> sint (balance (m ! this))"
  then show "0 \<le> sint (balance (snd (transfer this cpty amount_xts cmt m) ! this))"
    using debit_keeps_source_non_negative by blast
qed

theorem balance_never_negative_small_bank_witness:
  "100 * int (length (snd (run [Get_or_create ''Alice'', Get_or_create ''Bob'',
       Transfer 0 1 100 ''all''] empty_bank))) \<le> 2147483647 \<and>
   (1::nat) < length (snd (run [Get_or_create ''Alice'', Get_or_create ''Bob'',
       Transfer 0 1 100 ''all''] empty_bank)) \<and>
   0 \<le> sint (balance (snd (run [Get_or_create ''Alice'', Get_or_create ''Bob'',
       Transfer 0 1 100 ''all''] empty_bank) ! 0)) \<and>
   balance (snd (run [Get_or_create ''Alice'', Get_or_create ''Bob'',
       Transfer 0 1 100 ''all''] empty_bank) ! 0) = 0"
proof -
  let ?rs = "[Get_or_create ''Alice'', Get_or_create ''Bob'', Transfer 0 1 100 ''all'']"
  have r: "run ?rs empty_bank = (fst (run ?rs empty_bank), snd (run ?rs empty_bank))"
    by simp
  have len: "length (snd (run ?rs empty_bank)) = 2"
    by (simp add: empty_bank_def get_or_create_user_def transfer_def Let_def)
  have b: "balance (snd (run ?rs empty_bank) ! 0) = 0"
    by (simp add: empty_bank_def get_or_create_user_def transfer_def Let_def
          new_user_fields add_transaction_def)
  have h1: "100 * int (length (snd (run ?rs empty_bank))) \<le> 2147483647"
    unfolding len by simp
  have h2: "(0::nat) < length (snd (run ?rs empty_bank))"
    and h3: "(1::nat) < length (snd (run ?rs empty_bank))"
    unfolding len by simp_all
  have "0 \<le> sint (balance (snd (run ?rs empty_bank) ! 0))"
    using balance_never_negative_small_bank [OF r] h1 h2 by blast
  with h1 h3 b show ?thesis
    by (intro conjI)
qed

text \<open>
  Claim C2 says that no balance is ever negative. The credit
  \<^verbatim>\<open>counterparty.balance_ += amount_xts\<close> is not guarded: after the account of the empty
  name has received the opening deposits of 21474836 other accounts, its balance
  2147483700 is beyond the largest \<^verbatim>\<open>int\<close> and reads as a negative number.
\<close>

theorem balance_negative_after_overflow:
  "(0::nat) < length (snd (run (funnel 21474836) empty_bank)) \<and>
   sint (balance (snd (run (funnel 21474836) empty_bank) ! 0)) = - 2147483596"
proof -
  from funnel_state [of 21474836]
  have len: "length (snd (run (funnel 21474836) empty_bank)) = Suc 21474836"
    and bal: "balance (snd (run (funnel 21474836) empty_bank) ! 0) = 100 * (of_nat 21474836 + 1)"
    by blast+
  have "sint (100 * (of_nat 21474836 + 1) :: int32) = - 2147483596"
    by simp
  with bal have "sint (balance (snd (run (funnel 21474836) empty_bank) ! 0)) = - 2147483596"
    by (simp only:)
  moreover from len have "(0::nat) < length (snd (run (funnel 21474836) empty_bank))"
    by (simp only: zero_less_Suc)
  ultimately show ?thesis
    by (intro conjI)
qed

section \<open>Balances as numbers\<close>

lemma sum_of_deltas_snoc:
  "sum_of_deltas (ts @ [t]) = sum_of_deltas ts + sint (balance_delta_xts t)"
  by (simp add: sum_of_deltas_def)

lemma credit_fits:
  assumes inv: "funds_conserved m" and bound: "100 * int (length m) \<le> 2147483647"
    and src: "this < length m" and dst: "cpty < length m" and ne: "this \<noteq> cpty"
    and a0: "0 \<le> sint amount_xts" and ok: "0 \<le> sint (balance (m ! this) - amount_xts)"
  shows "sint (balance (m ! cpty) + amount_xts) = sint (balance (m ! cpty)) + sint amount_xts"
proof -
  let ?f = "\<lambda>u. sint (balance u)"
  have nonneg: "\<forall>k < length m. 0 \<le> ?f (m ! k)"
    and total: "sum_list (map ?f m) = 100 * int (length m)"
    using inv by (simp_all add: funds_conserved_def total_xts_def)
  have b0: "0 \<le> sint (balance (m ! this))"
    using nonneg src by simp
  have debit: "sint (balance (m ! this) - amount_xts) = sint (balance (m ! this)) - sint amount_xts"
    using a0 b0 by (rule sint32_debit)
  have "?f (m ! this) + ?f (m ! cpty) \<le> sum_list (map ?f m)"
    using nonneg src dst ne by (rule two_elements_le_sum_list)
  then have "sint (balance (m ! cpty)) + sint amount_xts \<le> 2147483647"
    using total bound debit ok by simp
  moreover have "0 \<le> sint (balance (m ! cpty))"
    using nonneg dst by simp
  ultimately show ?thesis
    using a0 by (intro sint32_add) simp_all
qed

lemma numbers_balanced_transfer:
  assumes inv: "funds_conserved m" and num: "numbers_balanced m"
    and bound: "100 * int (length m) \<le> 2147483647"
    and src: "this < length m" and dst: "cpty < length m"
  shows "numbers_balanced (snd (transfer this cpty amount_xts cmt m))"
proof -
  let ?m' = "snd (transfer this cpty amount_xts cmt m)"
  have old: "sint (balance (m ! q)) = sum_of_deltas (transactions (m ! q))" if "q < length m" for q
    using num that by (simp add: numbers_balanced_def)
  have "sint (balance (?m' ! p)) = sum_of_deltas (transactions (?m' ! p))" if p: "p < length m" for p
    using transfer_result [OF src dst, of amount_xts cmt]
  proof (elim disjE conjE)
    assume "?m' = m"
    then show ?thesis using old [OF p] by simp
  next
    assume ne: "this \<noteq> cpty" and a0: "0 \<le> sint amount_xts"
      and ok: "0 \<le> sint (balance (m ! this) - amount_xts)"
      and eq: "?m' = m[this := (m ! this)\<lparr>balance := balance (m ! this) - amount_xts,
           transactions := transactions (m ! this) @
             [\<lparr>counterparty = Some cpty, balance_delta_xts = - amount_xts, comment = cmt\<rparr>],
           cv_new_transaction := Suc (cv_new_transaction (m ! this))\<rparr>,
         cpty := (m ! cpty)\<lparr>balance := balance (m ! cpty) + amount_xts,
           transactions := transactions (m ! cpty) @
             [\<lparr>counterparty = Some this, balance_delta_xts = amount_xts, comment = cmt\<rparr>],
           cv_new_transaction := Suc (cv_new_transaction (m ! cpty))\<rparr>]"
    have b0: "0 \<le> sint (balance (m ! this))"
      using inv src by (simp add: funds_conserved_def)
    have debit: "sint (balance (m ! this) - amount_xts) = sint (balance (m ! this)) - sint amount_xts"
      using a0 b0 by (rule sint32_debit)
    have neg: "sint (- amount_xts) = - sint amount_xts"
      using sint32_debit [OF a0, of 0] by simp
    have credit: "sint (balance (m ! cpty) + amount_xts) = sint (balance (m ! cpty)) + sint amount_xts"
      using inv bound src dst ne a0 ok by (rule credit_fits)
    show ?thesis
      unfolding eq using p src dst ne old [OF p] old [OF src] old [OF dst] debit neg credit
      by (auto simp: nth_list_update sum_of_deltas_snoc)
  qed
  then show ?thesis
    by (simp add: numbers_balanced_def length_transfer)
qed

lemma numbers_balanced_perform:
  assumes "funds_conserved (snd s)" and "numbers_balanced (snd s)"
    and "100 * int (length (snd (perform r s))) \<le> 2147483647"
  shows "numbers_balanced (snd (perform r s))"
proof (cases s)
  case (Pair l m)
  show ?thesis
  proof (cases r)
    case (Get_or_create nm)
    then show ?thesis
      using assms(2) Pair
      by (auto simp: get_or_create_user_def numbers_balanced_def sum_of_deltas_def nth_append
            new_user_fields less_Suc_eq split: option.splits)
  next
    case (Transfer this cpty amount_xts cmt)
    show ?thesis
    proof (cases "this < length m \<and> cpty < length m")
      case True
      then have "numbers_balanced (snd (transfer this cpty amount_xts cmt m))"
        using assms Pair Transfer by (intro numbers_balanced_transfer) (simp_all add: length_transfer)
      then show ?thesis
        using True Pair Transfer by simp
    next
      case False
      then show ?thesis
        using assms(2) Pair Transfer by auto
    qed
  qed
qed

lemma numbers_balanced_run:
  "funds_conserved (snd s) \<Longrightarrow> numbers_balanced (snd s) \<Longrightarrow>
   100 * int (length (snd (run rs s))) \<le> 2147483647 \<Longrightarrow>
   numbers_balanced (snd (run rs s))"
proof (induction rs arbitrary: s)
  case Nil
  then show ?case by simp
next
  case (Cons r rs)
  have "length (snd (perform r s)) \<le> length (snd (run rs (perform r s)))"
    by (rule length_run)
  with Cons.prems(3) have b: "100 * int (length (snd (perform r s))) \<le> 2147483647"
    by simp
  from Cons.prems(1) b have f: "funds_conserved (snd (perform r s))"
    by (rule funds_conserved_perform)
  from Cons.prems(1,2) b have n: "numbers_balanced (snd (perform r s))"
    by (rule numbers_balanced_perform)
  from Cons.IH [OF f n] Cons.prems(3) show ?case by simp
qed

lemma funnel_open:
  "snd (run (funnel n @ [Get_or_create (replicate (Suc n) CHR ''a'')]) empty_bank) =
   snd (run (funnel n) empty_bank) @ [new_user (replicate (Suc n) CHR ''a'')]"
proof -
  obtain l m where s: "run (funnel n) empty_bank = (l, m)"
    by (cases "run (funnel n) empty_bank")
  let ?nm = "replicate (Suc n) CHR ''a''"
  from funnel_state [of n] s have len: "length m = Suc n"
    and names: "\<forall>k \<le> n. name (m ! k) = replicate k CHR ''a''"
    by simp_all
  have own: "ledger_owns l m"
    using ledger_owns_run [OF ledger_owns_empty, of "funnel n"] s by simp
  have absent: "users l ?nm = None"
  proof (rule ccontr)
    assume "users l ?nm \<noteq> None"
    then obtain p where "users l ?nm = Some p" by auto
    with own have "p < length m" and "name (m ! p) = ?nm"
      by (auto simp: ledger_owns_def)
    with names len have "replicate p CHR ''a'' = ?nm" by simp
    then have "length (replicate p CHR ''a'') = length ?nm" by (rule arg_cong)
    with \<open>p < length m\<close> len show False by simp
  qed
  show ?thesis
    using s absent by (simp add: run_append get_or_create_user_def)
qed

lemma funnel_last_transfer:
  "Suc n < length (snd (run (funnel n @ [Get_or_create (replicate (Suc n) CHR ''a'')]) empty_bank)) \<and>
   0 < length (snd (run (funnel n @ [Get_or_create (replicate (Suc n) CHR ''a'')]) empty_bank)) \<and>
   balance (snd (run (funnel n @ [Get_or_create (replicate (Suc n) CHR ''a'')]) empty_bank) ! Suc n) = 100 \<and>
   balance (snd (run (funnel n @ [Get_or_create (replicate (Suc n) CHR ''a'')]) empty_bank) ! 0) =
     100 * (of_nat n + 1) \<and>
   snd (run (funnel (Suc n)) empty_bank) =
     snd (transfer (Suc n) 0 100 []
       (snd (run (funnel n @ [Get_or_create (replicate (Suc n) CHR ''a'')]) empty_bank)))"
proof -
  let ?m = "snd (run (funnel n) empty_bank)"
  let ?m1 = "snd (run (funnel n @ [Get_or_create (replicate (Suc n) CHR ''a'')]) empty_bank)"
  have len: "length ?m = Suc n" and bal: "balance (?m ! 0) = 100 * (of_nat n + 1)"
    using funnel_state [of n] by simp_all
  have m1: "?m1 = ?m @ [new_user (replicate (Suc n) CHR ''a'')]"
    by (rule funnel_open)
  have 1: "Suc n < length ?m1" and 2: "0 < length ?m1"
    unfolding m1 using len by simp_all
  have 3: "balance (?m1 ! Suc n) = 100"
    unfolding m1 using len by (simp add: nth_append new_user_fields)
  have 4: "balance (?m1 ! 0) = 100 * (of_nat n + 1)"
    unfolding m1 using len bal by (simp add: nth_append)
  have "run (funnel (Suc n)) empty_bank =
      perform (Transfer (Suc n) 0 100 [])
        (run (funnel n @ [Get_or_create (replicate (Suc n) CHR ''a'')]) empty_bank)"
    by (simp add: run_append)
  then have 5: "snd (run (funnel (Suc n)) empty_bank) = snd (transfer (Suc n) 0 100 [] ?m1)"
    using 1 2
    by (cases "run (funnel n @ [Get_or_create (replicate (Suc n) CHR ''a'')]) empty_bank") simp
  from 1 2 3 4 5 show ?thesis
    by (intro conjI)
qed

lemma funnel_log:
  "sum_of_deltas (transactions (snd (run (funnel n) empty_bank) ! 0)) = 100 * (int n + 1)"
proof (induction n)
  case 0
  show ?case
    by (simp add: empty_bank_def get_or_create_user_def new_user_fields sum_of_deltas_def)
next
  case (Suc n)
  let ?m1 = "snd (run (funnel n @ [Get_or_create (replicate (Suc n) CHR ''a'')]) empty_bank)"
  have m1: "?m1 = snd (run (funnel n) empty_bank) @ [new_user (replicate (Suc n) CHR ''a'')]"
    by (rule funnel_open)
  have len: "length (snd (run (funnel n) empty_bank)) = Suc n"
    using funnel_state [of n] by simp
  from funnel_last_transfer [of n]
  have src: "Suc n < length ?m1" and dst: "0 < length ?m1"
    and b: "balance (?m1 ! Suc n) = 100"
    and step: "snd (run (funnel (Suc n)) empty_bank) = snd (transfer (Suc n) 0 100 [] ?m1)"
    by blast+
  have ok: "0 \<le> sint (balance (?m1 ! Suc n) - 100)"
    unfolding b by simp
  note eq = transfer_ok [OF _ src dst _ ok, of "[]"]
  have "transactions (snd (run (funnel (Suc n)) empty_bank) ! 0) =
      transactions (?m1 ! 0) @
        [\<lparr>counterparty = Some (Suc n), balance_delta_xts = 100, comment = []\<rparr>]"
    unfolding step using dst by (subst eq) simp_all
  moreover have "transactions (?m1 ! 0) = transactions (snd (run (funnel n) empty_bank) ! 0)"
    unfolding m1 using len by (simp add: nth_append)
  ultimately show ?case
    using Suc by (simp add: sum_of_deltas_snoc)
qed

text \<open>
  Claim C1, as the code has it. After every sequence of lookups and transfers (successful
  or not) on a new ledger, the balance of every account is the sum of the deltas of its
  log in the 32-bit \<^verbatim>\<open>int\<close> arithmetic of the program, which is how the replaying loop
  of the tests adds them up; the log and the balance that \<^verbatim>\<open>snapshot_transactions\<close>
  hands to its visitor are those of the account, and replaying that log gives that
  balance. As numbers, the balance and the sum of the deltas are equal as long as the
  bank holds at most 21474836 accounts.
\<close>

theorem balance_is_sum_of_log:
  assumes "run rs empty_bank = (l, m)" and "p < length m"
  shows "balance (m ! p) = sum_list (map balance_delta_xts (transactions (m ! p))) \<and>
    balance (m ! p) = replay (transactions (m ! p)) \<and>
    (case fst (snapshot_transactions (\<lambda>ts bal. (ts, bal)) p m) of
       (ts, bal) \<Rightarrow> ts = transactions (m ! p) \<and> bal = balance (m ! p) \<and> replay ts = bal) \<and>
    (100 * int (length m) \<le> 2147483647 \<longrightarrow>
       sint (balance (m ! p)) = sum_of_deltas (transactions (m ! p)))"
proof -
  have "books_balanced (snd empty_bank)"
    by (simp add: empty_bank_def books_balanced_def)
  then have "books_balanced (snd (run rs empty_bank))"
    by (rule books_balanced_run)
  then have words: "balance (m ! p) = replay (transactions (m ! p))"
    using assms by (simp add: books_balanced_def)
  have numbers: "sint (balance (m ! p)) = sum_of_deltas (transactions (m ! p))"
    if "100 * int (length m) \<le> 2147483647"
  proof -
    have "funds_conserved (snd empty_bank)" and "numbers_balanced (snd empty_bank)"
      by (simp_all add: empty_bank_def funds_conserved_def total_xts_def numbers_balanced_def)
    then have "numbers_balanced (snd (run rs empty_bank))"
      using that assms(1) by (intro numbers_balanced_run) simp_all
    then show ?thesis
      using assms by (simp add: numbers_balanced_def)
  qed
  from words numbers show ?thesis
    by (simp add: snapshot_transactions_def replay_sum_list)
qed

theorem balance_is_sum_of_log_witness:
  "(1::nat) < length (snd (run [Get_or_create ''Alice'', Get_or_create ''Bob'',
       Transfer 0 1 40 ''Test transfer'', Transfer 1 0 500 ''too much''] empty_bank)) \<and>
   100 * int (length (snd (run [Get_or_create ''Alice'', Get_or_create ''Bob'',
       Transfer 0 1 40 ''Test transfer'', Transfer 1 0 500 ''too much''] empty_bank))) \<le> 2147483647 \<and>
   balance (snd (run [Get_or_create ''Alice'', Get_or_create ''Bob'',
       Transfer 0 1 40 ''Test transfer'', Transfer 1 0 500 ''too much''] empty_bank) ! 1) = 140 \<and>
   replay (transactions (snd (run [Get_or_create ''Alice'', Get_or_create ''Bob'',
       Transfer 0 1 40 ''Test transfer'', Transfer 1 0 500 ''too much''] empty_bank) ! 1)) = 140 \<and>
   sum_of_deltas (transactions (snd (run [Get_or_create ''Alice'', Get_or_create ''Bob'',
       Transfer 0 1 40 ''Test transfer'', Transfer 1 0 500 ''too much''] empty_bank) ! 1)) = 140"
proof -
  let ?rs = "[Get_or_create ''Alice'', Get_or_create ''Bob'',
       Transfer 0 1 40 ''Test transfer'', Transfer 1 0 500 ''too much'']"
  have r: "run ?rs empty_bank = (fst (run ?rs empty_bank), snd (run ?rs empty_bank))"
    by simp
  have len: "(1::nat) < length (snd (run ?rs empty_bank))"
    by (simp add: empty_bank_def get_or_create_user_def transfer_def Let_def)
  have bound: "100 * int (length (snd (run ?rs empty_bank))) \<le> 2147483647"
    by (simp add: empty_bank_def get_or_create_user_def transfer_def Let_def)
  have b: "balance (snd (run ?rs empty_bank) ! 1) = 140"
    by (simp add: empty_bank_def get_or_create_user_def transfer_def Let_def
          new_user_fields add_transaction_def)
  have t: "balance (snd (run ?rs empty_bank) ! 1) =
      replay (transactions (snd (run ?rs empty_bank) ! 1))"
    using balance_is_sum_of_log [OF r len] by blast
  have rp: "replay (transactions (snd (run ?rs empty_bank) ! 1)) = 140"
    using trans [OF t [symmetric] b] .
  have "sint (balance (snd (run ?rs empty_bank) ! 1)) =
      sum_of_deltas (transactions (snd (run ?rs empty_bank) ! 1))"
    using balance_is_sum_of_log [OF r len] bound by blast
  then have sd: "sum_of_deltas (transactions (snd (run ?rs empty_bank) ! 1)) = 140"
    unfolding b by simp
  show ?thesis
    using len bound b rp sd by (intro conjI)
qed

text \<open>
  Claim C1 says that the balance equals the sum of the deltas of the log. After the run
  that sends the opening deposits of 21474836 accounts to the account of the empty name,
  the deltas of its log add up to 2147483700 and its balance reads -2147483596.
\<close>

theorem balance_differs_from_sum_after_overflow:
  "(0::nat) < length (snd (run (funnel 21474836) empty_bank)) \<and>
   sum_of_deltas (transactions (snd (run (funnel 21474836) empty_bank) ! 0)) = 2147483700 \<and>
   sint (balance (snd (run (funnel 21474836) empty_bank) ! 0)) = - 2147483596"
proof -
  from funnel_state [of 21474836]
  have len: "length (snd (run (funnel 21474836) empty_bank)) = Suc 21474836"
    and bal: "balance (snd (run (funnel 21474836) empty_bank) ! 0) = 100 * (of_nat 21474836 + 1)"
    by blast+
  have "sint (100 * (of_nat 21474836 + 1) :: int32) = - 2147483596"
    by simp
  with bal have 3: "sint (balance (snd (run (funnel 21474836) empty_bank) ! 0)) = - 2147483596"
    by (simp only:)
  from len have 1: "(0::nat) < length (snd (run (funnel 21474836) empty_bank))"
    by (simp only: zero_less_Suc)
  have "100 * (int 21474836 + 1) = 2147483700"
    by simp
  with funnel_log [of 21474836]
  have 2: "sum_of_deltas (transactions (snd (run (funnel 21474836) empty_bank) ! 0)) = 2147483700"
    by (simp only:)
  from 1 2 3 show ?thesis
    by (intro conjI)
qed

section \<open>Transfers from and to an account beyond the range of an int\<close>

text \<open>
  Claim C3 says that the balance of the destination increases by the amount. After the
  run that sends the opening deposits of 21474835 accounts to the account of the empty
  name and opens one more account, that last account (balance 100) sends 100 to the
  first (balance 2147483600): the accounts are distinct, the amount is not negative and
  the balance of the source covers it, and the balance of the destination afterwards
  reads -2147483596.
\<close>

theorem credit_wraps_destination:
  "Suc 21474835 <
     length (snd (run (funnel 21474835 @ [Get_or_create (replicate (Suc 21474835) CHR ''a'')]) empty_bank)) \<and>
   0 < length (snd (run (funnel 21474835 @ [Get_or_create (replicate (Suc 21474835) CHR ''a'')]) empty_bank)) \<and>
   Suc 21474835 \<noteq> 0 \<and>
   0 \<le> sint (100 :: int32) \<and>
   sint (100 :: int32) \<le> sint (balance
     (snd (run (funnel 21474835 @ [Get_or_create (replicate (Suc 21474835) CHR ''a'')]) empty_bank) !
       Suc 21474835)) \<and>
   sint (balance
     (snd (run (funnel 21474835 @ [Get_or_create (replicate (Suc 21474835) CHR ''a'')]) empty_bank) ! 0)) =
     2147483600 \<and>
   sint (balance (snd (transfer (Suc 21474835) 0 100 []
     (snd (run (funnel 21474835 @ [Get_or_create (replicate (Suc 21474835) CHR ''a'')]) empty_bank))) ! 0)) =
     - 2147483596"
proof -
  let ?m = "snd (run (funnel 21474835 @ [Get_or_create (replicate (Suc 21474835) CHR ''a'')]) empty_bank)"
  from funnel_last_transfer [of 21474835]
  have 1: "Suc 21474835 < length ?m" and 2: "0 < length ?m"
    and src: "balance (?m ! Suc 21474835) = 100"
    and dst: "balance (?m ! 0) = 100 * (of_nat 21474835 + 1)"
    and step: "snd (run (funnel (Suc 21474835)) empty_bank) = snd (transfer (Suc 21474835) 0 100 [] ?m)"
    by blast+
  have 3: "Suc 21474835 \<noteq> 0" by (rule Suc_not_Zero)
  have 4: "0 \<le> sint (100 :: int32)" by simp
  have 5: "sint (100 :: int32) \<le> sint (balance (?m ! Suc 21474835))"
    by (simp only: src order_refl)
  have "sint (100 * (of_nat 21474835 + 1) :: int32) = 2147483600"
    by simp
  with dst have 6: "sint (balance (?m ! 0)) = 2147483600"
    by (simp only:)
  from funnel_state [of "Suc 21474835"]
  have "balance (snd (run (funnel (Suc 21474835)) empty_bank) ! 0) = 100 * (of_nat (Suc 21474835) + 1)"
    by blast
  then have after: "balance (snd (transfer (Suc 21474835) 0 100 [] ?m) ! 0) =
      100 * (of_nat (Suc 21474835) + 1)"
    by (simp only: step)
  have "sint (100 * (of_nat (Suc 21474835) + 1) :: int32) = - 2147483596"
    by simp
  with after have 7: "sint (balance (snd (transfer (Suc 21474835) 0 100 [] ?m) ! 0)) = - 2147483596"
    by (simp only:)
  from 1 2 3 4 5 6 7 show ?thesis
    by (intro conjI)
qed

text \<open>
  Claim C4 says that, between distinct accounts and for a non-negative amount, the
  transfer fails exactly when the balance of the source minus the amount is below zero.
  From the account whose balance reads -2147483596 a transfer of 2147483647 returns
  normally: the \<^verbatim>\<open>int\<close> difference wraps to 53.
\<close>

theorem overdraft_passes_after_overflow:
  "(0::nat) < length (snd (run (funnel 21474836) empty_bank)) \<and>
   (1::nat) < length (snd (run (funnel 21474836) empty_bank)) \<and>
   (0::nat) \<noteq> 1 \<and> 0 \<le> sint (2147483647 :: int32) \<and>
   sint (balance (snd (run (funnel 21474836) empty_bank) ! 0)) - sint (2147483647 :: int32) < 0 \<and>
   fst (transfer 0 1 2147483647 [] (snd (run (funnel 21474836) empty_bank))) = Inr ()"
proof -
  let ?m = "snd (run (funnel 21474836) empty_bank)"
  from funnel_state [of 21474836]
  have len: "length ?m = Suc 21474836"
    and bal: "balance (?m ! 0) = 100 * (of_nat 21474836 + 1)"
    by blast+
  have 1: "(0::nat) < length ?m" and 2: "(1::nat) < length ?m"
    unfolding len by simp_all
  have 3: "(0::nat) \<noteq> 1" by simp
  have 4: "0 \<le> sint (2147483647 :: int32)" by simp
  have "sint (100 * (of_nat 21474836 + 1) :: int32) - sint (2147483647 :: int32) < 0"
    by simp
  with bal have 5: "sint (balance (?m ! 0)) - sint (2147483647 :: int32) < 0"
    by (simp only:)
  have "0 \<le> sint (100 * (of_nat 21474836 + 1) - 2147483647 :: int32)"
    by simp
  with bal have ok: "0 \<le> sint (balance (?m ! 0) - 2147483647)"
    by (simp only:)
  have 6: "fst (transfer 0 1 2147483647 [] ?m) = Inr ()"
    by (simp only: transfer_ok [OF 3 1 2 4 ok] fst_conv)
  from 1 2 3 4 5 6 show ?thesis
    by (intro conjI)
qed

text \<open>
  Claim C10 says that a transfer of amount 0 succeeds for every pair of distinct accounts.
  From the account whose balance reads -2147483596 it throws
  \<open>not_enough_funds_error\<close>.
\<close>

theorem transfer_zero_fails_after_overflow:
  "(0::nat) < length (snd (run (funnel 21474836) empty_bank)) \<and>
   (1::nat) < length (snd (run (funnel 21474836) empty_bank)) \<and>
   (0::nat) \<noteq> 1 \<and>
   fst (transfer 0 1 0 [] (snd (run (funnel 21474836) empty_bank))) =
     Inl (not_enough_funds_error (- 2147483596) 0)"
proof -
  let ?m = "snd (run (funnel 21474836) empty_bank)"
  from funnel_state [of 21474836]
  have len: "length ?m = Suc 21474836"
    and bal: "balance (?m ! 0) = 100 * (of_nat 21474836 + 1)"
    by blast+
  have 1: "(0::nat) < length ?m" and 2: "(1::nat) < length ?m"
    unfolding len by simp_all
  have 3: "(0::nat) \<noteq> 1" by simp
  have val: "(100 * (of_nat 21474836 + 1) :: int32) = - 2147483596"
    by simp
  have b: "balance (?m ! 0) = - 2147483596"
    using bal val by (simp only:)
  have z: "0 \<le> sint (0 :: int32)" by simp
  have "sint (- 2147483596 - 0 :: int32) < 0"
    by simp
  then have short: "sint (balance (?m ! 0) - 0) < 0"
    by (simp only: b)
  have "fst (transfer 0 1 0 [] ?m) = Inl (not_enough_funds_error (balance (?m ! 0)) 0)"
    by (simp only: transfer_not_enough [OF 3 z short] fst_conv)
  then have 4: "fst (transfer 0 1 0 [] ?m) = Inl (not_enough_funds_error (- 2147483596) 0)"
    by (simp only: b)
  from 1 2 3 4 show ?thesis
    by (intro conjI)
qed

end
